theory Spec2Isabelle
  imports Main "HOL-Library.Sublist" "HOL-Library.AList" "HOL-Library.Char_ord"
    "HOL-Library.List_Lexorder"
begin

text \<open>
  The certificate runner is one Python function, \<^verbatim>\<open>handler\<close> in
  \<^verbatim>\<open>src/certbot-runner/certbot_runner.py\<close>, with two local functions
  \<^verbatim>\<open>is_within_directory\<close> and \<^verbatim>\<open>safe_extract\<close>. It calls into the Python
  standard library (\<^verbatim>\<open>os.path\<close>, \<^verbatim>\<open>tarfile\<close>, \<^verbatim>\<open>zipfile\<close>), the object store
  client and the ACME client. The library functions are modelled by what they are
  documented to do on a POSIX system; the object store is a map from (bucket, key) to
  contents; the ACME client is a parameter of the handler.
\<close>

section \<open>Path names: the functions of \<^verbatim>\<open>os.path\<close> the handler calls\<close>

text \<open>
  \<open>split_slash s\<close> is \<^verbatim>\<open>s.split('/')\<close> and \<open>join_slash\<close> is \<^verbatim>\<open>'/'.join\<close>.
  \<open>join\<close> is \<^verbatim>\<open>os.path.join\<close> with two arguments, \<open>normpath\<close> is
  \<^verbatim>\<open>os.path.normpath\<close> (one or two leading slashes are kept, three or more count as
  one; empty and \<^verbatim>\<open>.\<close> components are dropped; \<^verbatim>\<open>..\<close> removes the component before
  it), \<open>abspath\<close> is \<^verbatim>\<open>os.path.abspath\<close> with the working directory as a parameter,
  and \<open>commonprefix\<close> is \<^verbatim>\<open>os.path.commonprefix\<close>: the longest common prefix taken
  character by character.
\<close>

fun split_slash :: "string \<Rightarrow> string list" where
  "split_slash [] = [[]]"
| "split_slash (c # cs) =
     (if c = CHR ''/'' then [] # split_slash cs
      else (case split_slash cs of
              [] \<Rightarrow> [[c]]
            | w # ws \<Rightarrow> (c # w) # ws))"

fun join_slash :: "string list \<Rightarrow> string" where
  "join_slash [] = []"
| "join_slash [c] = c"
| "join_slash (c # d # cs) = c @ ''/'' @ join_slash (d # cs)"

definition isabs :: "string \<Rightarrow> bool" where
  "isabs s = (case s of [] \<Rightarrow> False | c # _ \<Rightarrow> c = CHR ''/'')"

definition endswith_sep :: "string \<Rightarrow> bool" where
  "endswith_sep s = (s \<noteq> [] \<and> last s = CHR ''/'')"

definition join :: "string \<Rightarrow> string \<Rightarrow> string" where
  "join a b =
     (if isabs b then b
      else if a = [] \<or> endswith_sep a then a @ b
      else a @ ''/'' @ b)"

definition initial_slashes :: "string \<Rightarrow> nat" where
  "initial_slashes path =
     (if isabs path then
        (if take 2 path = ''//'' \<and> take 3 path \<noteq> ''///'' then 2 else 1)
      else 0)"

definition norm_step :: "nat \<Rightarrow> string list \<Rightarrow> string \<Rightarrow> string list" where
  "norm_step slashes new_comps component =
     (if component = [] \<or> component = ''.'' then new_comps
      else if component \<noteq> ''..'' \<or> (slashes = 0 \<and> new_comps = [])
              \<or> (new_comps \<noteq> [] \<and> last new_comps = ''..'')
      then new_comps @ [component]
      else if new_comps \<noteq> [] then butlast new_comps
      else new_comps)"

definition normpath :: "string \<Rightarrow> string" where
  "normpath path =
     (if path = [] then ''.''
      else
        let slashes = initial_slashes path;
            comps = foldl (norm_step slashes) [] (split_slash path);
            path' = replicate slashes CHR ''/'' @ join_slash comps
        in if path' = [] then ''.'' else path')"

definition abspath :: "string \<Rightarrow> string \<Rightarrow> string" where
  "abspath cwd path = normpath (if isabs path then path else join cwd path)"

fun common_prefix :: "string \<Rightarrow> string \<Rightarrow> string" where
  "common_prefix (a # as) (b # bs) = (if a = b then a # common_prefix as bs else [])"
| "common_prefix _ _ = []"

definition commonprefix :: "string list \<Rightarrow> string" where
  "commonprefix m = (case m of [] \<Rightarrow> [] | s # rest \<Rightarrow> foldl common_prefix s rest)"

text \<open>
  Lines 16 to 23 of the source. The working directory, which \<^verbatim>\<open>os.path.abspath\<close>
  reads from the process, is the first argument.
\<close>

definition is_within_directory :: "string \<Rightarrow> string \<Rightarrow> string \<Rightarrow> bool" where
  "is_within_directory cwd directory target =
     (let abs_directory = abspath cwd directory;
          abs_target = abspath cwd target;
          prefix = commonprefix [abs_directory, abs_target]
      in prefix = abs_directory)"


section \<open>Files, archives and the file system\<close>

text \<open>
  The contents of a file are what the libraries read from it: raw bytes, the members
  of a tar archive, or the entries of a zip archive. An archive member is a regular
  file or a directory; links and device nodes are not modelled. The file system is a
  tree; a directory lists its children by name.
\<close>

datatype membertype = REGTYPE | DIRTYPE

datatype blob = Raw string | TarArchive "tarinfo list" | ZipArchive "zipinfo list"
and tarinfo = TarInfo (name: string) (type: membertype) (payload: blob)
and zipinfo = ZipInfo (zip_filename: string) (zip_data: blob)

datatype node = File blob | Dir "(string \<times> node) list"

datatype error =
    KeyError string
  | Exception string
  | ClientError string
  | ReadError
  | FileNotFoundError
  | FileExistsError
  | NotADirectoryError
  | IsADirectoryError
  | CertbotError string

text \<open>
  A path name in normal form is resolved by the operating system to the components of
  its absolute, normalised form (there are no symbolic links in the model). The file
  names the handler passes itself are constants of this kind. The names extraction
  builds from the members of an archive are not normalised: they are followed
  component by component, by \<open>walk\<close> below.
\<close>

type_synonym path = "string list"

definition path_components :: "string \<Rightarrow> string \<Rightarrow> path" where
  "path_components cwd p = filter (\<lambda>c. c \<noteq> []) (split_slash (abspath cwd p))"

fun lookup :: "node \<Rightarrow> path \<Rightarrow> node option" where
  "lookup n [] = Some n"
| "lookup (File _) (c # cs) = None"
| "lookup (Dir es) (c # cs) =
     (case map_of es c of None \<Rightarrow> None | Some m \<Rightarrow> lookup m cs)"

text \<open>
  \<open>makedirs\<close> creates a directory and the missing directories above it, and accepts a
  directory that is already there. \<open>write_file\<close> is \<^verbatim>\<open>open(p, 'wb')\<close> followed by
  writing the contents: the directory above must exist, and the target must not be a
  directory. \<open>create_file\<close> is the exclusive mode \<^verbatim>\<open>'x'\<close>: it refuses a path that
  exists.
\<close>

fun mk :: "node option \<Rightarrow> path \<Rightarrow> error + node" where
  "mk None [] = Inr (Dir [])"
| "mk (Some (Dir es)) [] = Inr (Dir es)"
| "mk (Some (File _)) [] = Inl FileExistsError"
| "mk None (c # cs) =
     (case mk None cs of Inl e \<Rightarrow> Inl e | Inr m \<Rightarrow> Inr (Dir [(c, m)]))"
| "mk (Some (File _)) (c # cs) = Inl NotADirectoryError"
| "mk (Some (Dir es)) (c # cs) =
     (case mk (map_of es c) cs of
        Inl e \<Rightarrow> Inl e
      | Inr m \<Rightarrow> Inr (Dir (AList.update c m es)))"

definition makedirs :: "node \<Rightarrow> path \<Rightarrow> error + node" where
  "makedirs root p = mk (Some root) p"

fun put :: "node option \<Rightarrow> path \<Rightarrow> blob \<Rightarrow> error + node" where
  "put None [] b = Inr (File b)"
| "put (Some (File _)) [] b = Inr (File b)"
| "put (Some (Dir _)) [] b = Inl IsADirectoryError"
| "put None (c # cs) b = Inl FileNotFoundError"
| "put (Some (File _)) (c # cs) b = Inl NotADirectoryError"
| "put (Some (Dir es)) (c # cs) b =
     (case put (map_of es c) cs b of
        Inl e \<Rightarrow> Inl e
      | Inr m \<Rightarrow> Inr (Dir (AList.update c m es)))"

definition write_file :: "node \<Rightarrow> path \<Rightarrow> blob \<Rightarrow> error + node" where
  "write_file root p b = put (Some root) p b"

definition create_file :: "node \<Rightarrow> path \<Rightarrow> blob \<Rightarrow> error + node" where
  "create_file root p b =
     (if lookup root p \<noteq> None then Inl FileExistsError else write_file root p b)"

definition read_file :: "node \<Rightarrow> path \<Rightarrow> error + blob" where
  "read_file root p =
     (case lookup root p of
        None \<Rightarrow> Inl FileNotFoundError
      | Some (Dir _) \<Rightarrow> Inl IsADirectoryError
      | Some (File b) \<Rightarrow> Inr b)"

section \<open>Extraction of the state archive\<close>

text \<open>
  The operating system is handed path names as the library wrote them. \<open>walk\<close>
  follows the components of a path name from the root: an empty component is
  skipped, and from a directory that exists \<^verbatim>\<open>.\<close> stays, \<^verbatim>\<open>..\<close> steps to the directory
  above and a name steps below; from a missing directory or a file nothing can be
  followed. The last component need not exist. \<open>os_exists\<close>, \<open>os_mkdir\<close> and
  \<open>os_open_wb\<close> are \<^verbatim>\<open>os.path.exists\<close>, \<^verbatim>\<open>os.mkdir\<close> and \<^verbatim>\<open>open(p, 'wb')\<close> with a
  write. \<open>path_split\<close> and \<open>dirname\<close> are \<^verbatim>\<open>os.path.split\<close> and \<^verbatim>\<open>os.path.dirname\<close>,
  and \<open>os_makedirs\<close> is \<^verbatim>\<open>os.makedirs\<close> without \<^verbatim>\<open>exist_ok\<close>: it splits the name into
  head and tail, creates a missing head first (a \<^verbatim>\<open>FileExistsError\<close> from that is
  passed over), returns when the tail is \<^verbatim>\<open>.\<close>, and otherwise makes the directory.
\<close>

definition rstrip_sep :: "string \<Rightarrow> string" where
  "rstrip_sep s = rev (dropWhile (\<lambda>c. c = CHR ''/'') (rev s))"

definition path_split :: "string \<Rightarrow> string \<times> string" where
  "path_split p =
     (let head = rev (dropWhile (\<lambda>c. c \<noteq> CHR ''/'') (rev p));
          tail = rev (takeWhile (\<lambda>c. c \<noteq> CHR ''/'') (rev p))
      in (if head \<noteq> [] \<and> head \<noteq> replicate (length head) CHR ''/''
          then rstrip_sep head else head,
          tail))"

definition dirname :: "string \<Rightarrow> string" where
  "dirname p = fst (path_split p)"

fun walk :: "node \<Rightarrow> path \<Rightarrow> string list \<Rightarrow> error + path" where
  "walk root cur [] = Inr cur"
| "walk root cur (c # cs) =
     (if c = [] then walk root cur cs
      else
        (case lookup root cur of
           None \<Rightarrow> Inl FileNotFoundError
         | Some (File _) \<Rightarrow> Inl NotADirectoryError
         | Some (Dir _) \<Rightarrow>
             walk root
               (if c = ''.'' then cur else if c = ''..'' then butlast cur else cur @ [c])
               cs))"

definition resolve :: "node \<Rightarrow> string \<Rightarrow> string \<Rightarrow> error + path" where
  "resolve root cwd p =
     (if p = [] then Inl FileNotFoundError
      else walk root [] (split_slash (if isabs p then p else join cwd p)))"

definition os_exists :: "node \<Rightarrow> string \<Rightarrow> string \<Rightarrow> bool" where
  "os_exists root cwd p =
     (case resolve root cwd p of Inl _ \<Rightarrow> False | Inr q \<Rightarrow> lookup root q \<noteq> None)"

definition os_mkdir :: "node \<Rightarrow> string \<Rightarrow> string \<Rightarrow> (error + unit) \<times> node" where
  "os_mkdir root cwd p =
     (case resolve root cwd p of
        Inl e \<Rightarrow> (Inl e, root)
      | Inr q \<Rightarrow>
          if lookup root q \<noteq> None then (Inl FileExistsError, root)
          else
            (case makedirs root q of
               Inl e \<Rightarrow> (Inl e, root)
             | Inr root' \<Rightarrow> (Inr (), root')))"

definition os_open_wb :: "node \<Rightarrow> string \<Rightarrow> string \<Rightarrow> blob \<Rightarrow> (error + unit) \<times> node" where
  "os_open_wb root cwd p b =
     (case resolve root cwd p of
        Inl e \<Rightarrow> (Inl e, root)
      | Inr q \<Rightarrow>
          (case write_file root q b of
             Inl e \<Rightarrow> (Inl e, root)
           | Inr root' \<Rightarrow> (Inr (), root')))"

definition makedirs_split :: "string \<Rightarrow> string \<times> string" where
  "makedirs_split pathname =
     (case path_split pathname of
        (head, tail) \<Rightarrow> if tail = [] then path_split head else (head, tail))"

function os_makedirs :: "node \<Rightarrow> string \<Rightarrow> string \<Rightarrow> (error + unit) \<times> node" where
  "os_makedirs root cwd pathname =
     (case makedirs_split pathname of
        (head, tail) \<Rightarrow>
          if head \<noteq> [] \<and> tail \<noteq> [] \<and> \<not> os_exists root cwd head then
            (case os_makedirs root cwd head of
               (Inl e, root') \<Rightarrow>
                 if e \<noteq> FileExistsError then (Inl e, root')
                 else if tail = ''.'' then (Inr (), root')
                 else os_mkdir root' cwd pathname
             | (Inr _, root') \<Rightarrow>
                 if tail = ''.'' then (Inr (), root') else os_mkdir root' cwd pathname)
          else os_mkdir root cwd pathname)"
  by pat_completeness auto
termination
proof (relation "measure (\<lambda>(root, cwd, pathname). length pathname)")
  show "wf (measure (\<lambda>(root, cwd, pathname). length pathname))" by simp
next
  fix root :: node and cwd pathname head tail :: string
  assume x: "(head, tail) = makedirs_split pathname"
    and c: "head \<noteq> [] \<and> tail \<noteq> [] \<and> \<not> os_exists root cwd head"
  have len: "length (fst (path_split p)) + length (snd (path_split p)) \<le> length p" for p
  proof -
    let ?h = "rev (dropWhile (\<lambda>c. c \<noteq> CHR ''/'') (rev p))"
    let ?t = "rev (takeWhile (\<lambda>c. c \<noteq> CHR ''/'') (rev p))"
    have strip: "length (rstrip_sep h) \<le> length h" for h
      using length_dropWhile_le [of "\<lambda>c. c = CHR ''/''" "rev h"] by (simp add: rstrip_sep_def)
    have both: "length (takeWhile P xs) + length (dropWhile P xs) = length xs"
      for P and xs :: string
      by (induction xs) auto
    have sum: "length ?h + length ?t = length p"
      using both [of "\<lambda>c. c \<noteq> CHR ''/''" "rev p"] by simp
    have "length (if ?h \<noteq> [] \<and> ?h \<noteq> replicate (length ?h) CHR ''/'' then rstrip_sep ?h else ?h)
        \<le> length ?h"
      using strip [of ?h] by simp
    with sum have "length (if ?h \<noteq> [] \<and> ?h \<noteq> replicate (length ?h) CHR ''/''
                          then rstrip_sep ?h else ?h) + length ?t \<le> length p"
      by linarith
    then show ?thesis by (simp add: path_split_def Let_def)
  qed
  have "length head + length tail \<le> length pathname"
  proof (cases "snd (path_split pathname) = []")
    case True
    with x have "(head, tail) = path_split (fst (path_split pathname))"
      by (simp add: makedirs_split_def split: prod.splits)
    then have "head = fst (path_split (fst (path_split pathname)))"
      "tail = snd (path_split (fst (path_split pathname)))"
      by (simp_all add: prod_eq_iff)
    with len [of "fst (path_split pathname)"] len [of pathname] show ?thesis by simp
  next
    case False
    with x have "(head, tail) = path_split pathname"
      by (simp add: makedirs_split_def split: prod.splits)
    then have "head = fst (path_split pathname)" "tail = snd (path_split pathname)"
      by (simp_all add: prod_eq_iff)
    with len [of pathname] show ?thesis by simp
  qed
  with c show "((root, cwd, head), (root, cwd, pathname))
      \<in> measure (\<lambda>(root, cwd, pathname). length pathname)"
    by (cases tail) auto
qed

declare os_makedirs.simps [simp del]

text \<open>
  \<^verbatim>\<open>TarFile.extractall\<close> without an extraction filter, member by member in archive
  order, the first failure raising. For a member the library joins the destination
  with the member's name, drops trailing slashes, creates the directories above the
  target when they do not exist, and then writes the file or makes the directory (a
  directory that is already there is passed over). A \<^verbatim>\<open>TarFile\<close> opened for
  reading is the list of its members.
\<close>

definition extract_member ::
  "string \<Rightarrow> node \<Rightarrow> tarinfo \<Rightarrow> string \<Rightarrow> (error + unit) \<times> node" where
  "extract_member cwd root member path =
     (let targetpath = rstrip_sep (join path (name member));
          upperdirs = dirname targetpath
      in case (if upperdirs \<noteq> [] \<and> \<not> os_exists root cwd upperdirs
               then os_makedirs root cwd upperdirs else (Inr (), root)) of
           (Inl e, root') \<Rightarrow> (Inl e, root')
         | (Inr _, root') \<Rightarrow>
             (case type member of
                REGTYPE \<Rightarrow> os_open_wb root' cwd targetpath (payload member)
              | DIRTYPE \<Rightarrow>
                  (case os_mkdir root' cwd targetpath of
                     (Inl e, root'') \<Rightarrow>
                       if e = FileExistsError then (Inr (), root'') else (Inl e, root'')
                   | (Inr _, root'') \<Rightarrow> (Inr (), root''))))"

fun extract_each ::
  "string \<Rightarrow> node \<Rightarrow> tarinfo list \<Rightarrow> string \<Rightarrow> (error + unit) \<times> node" where
  "extract_each cwd root [] path = (Inr (), root)"
| "extract_each cwd root (member # rest) path =
     (case extract_member cwd root member path of
        (Inl e, root') \<Rightarrow> (Inl e, root')
      | (Inr _, root') \<Rightarrow> extract_each cwd root' rest path)"

definition extractall ::
  "string \<Rightarrow> node \<Rightarrow> tarinfo list \<Rightarrow> string \<Rightarrow> tarinfo list option
     \<Rightarrow> (error + unit) \<times> node" where
  "extractall cwd root tar path members =
     extract_each cwd root (case members of None \<Rightarrow> tar | Some ms \<Rightarrow> ms) path"

text \<open>
  Lines 25 to 32 of the source: the loop over \<^verbatim>\<open>tar.getmembers()\<close> that raises at the
  first member outside the directory, then the call of \<^verbatim>\<open>tar.extractall\<close>.
\<close>

fun validate_members :: "string \<Rightarrow> string \<Rightarrow> tarinfo list \<Rightarrow> error + unit" where
  "validate_members cwd path [] = Inr ()"
| "validate_members cwd path (member # rest) =
     (let member_path = join path (name member) in
      if \<not> is_within_directory cwd path member_path
      then Inl (Exception ''Attempted Path Traversal in Tar File'')
      else validate_members cwd path rest)"

definition safe_extract ::
  "string \<Rightarrow> node \<Rightarrow> tarinfo list \<Rightarrow> string \<Rightarrow> tarinfo list option
     \<Rightarrow> (error + unit) \<times> node" where
  "safe_extract cwd root tar path members =
     (case validate_members cwd path tar of
        Inl e \<Rightarrow> (Inl e, root)
      | Inr _ \<Rightarrow> extractall cwd root tar path members)"


section \<open>Archiving a directory tree\<close>

text \<open>
  \<^verbatim>\<open>TarFile.add(name, arcname)\<close>: a member for the node itself, named by \<open>arcname\<close>
  without leading slashes, then, for a directory, its children in sorted order, each
  under \<open>arcname\<close> joined with the child's name. (The library skips the archive file
  itself when it meets it; on lines 47 and 48 the archive is \<^verbatim>\<open>/tmp/state.tar\<close> and
  the tree is \<^verbatim>\<open>/tmp/config-dir\<close>, so it is never met.)
\<close>

fun tar_add :: "node \<Rightarrow> string \<Rightarrow> tarinfo list" where
  "tar_add (File b) arcname = [TarInfo (dropWhile (\<lambda>c. c = CHR ''/'') arcname) REGTYPE b]"
| "tar_add (Dir es) arcname =
     TarInfo (dropWhile (\<lambda>c. c = CHR ''/'') arcname) DIRTYPE (Raw [])
       # concat (map (\<lambda>(f, n). tar_add n (join arcname f)) (sort_key fst es))"

section \<open>The certificate bundle\<close>

text \<open>
  \<^verbatim>\<open>ZipFile.write(filename, arcname)\<close> stores the file under the normalised \<open>arcname\<close>
  without leading slashes (a directory gets a trailing slash and no data).
  \<open>package_bundle\<close> is lines 54 to 56 with the three path names as parameters: the
  archive is created in exclusive mode, the two files are added under their fixed
  names, and closing writes the entries added so far.
\<close>

definition zip_arcname :: "string \<Rightarrow> string" where
  "zip_arcname arcname = dropWhile (\<lambda>c. c = CHR ''/'') (normpath arcname)"

definition zip_entry :: "string \<Rightarrow> node \<Rightarrow> string \<Rightarrow> string \<Rightarrow> error + zipinfo" where
  "zip_entry cwd root filename arcname =
     (case lookup root (path_components cwd filename) of
        None \<Rightarrow> Inl FileNotFoundError
      | Some (Dir _) \<Rightarrow> Inr (ZipInfo (zip_arcname arcname @ ''/'') (Raw []))
      | Some (File b) \<Rightarrow> Inr (ZipInfo (zip_arcname arcname) b))"

fun zip_write_each ::
  "string \<Rightarrow> node \<Rightarrow> (string \<times> string) list \<Rightarrow> zipinfo list
     \<Rightarrow> (error + unit) \<times> zipinfo list" where
  "zip_write_each cwd root [] filelist = (Inr (), filelist)"
| "zip_write_each cwd root ((filename, arcname) # rest) filelist =
     (case zip_entry cwd root filename arcname of
        Inl e \<Rightarrow> (Inl e, filelist)
      | Inr zinfo \<Rightarrow> zip_write_each cwd root rest (filelist @ [zinfo]))"

definition package_bundle ::
  "string \<Rightarrow> node \<Rightarrow> string \<Rightarrow> string \<Rightarrow> string \<Rightarrow> (error + unit) \<times> node" where
  "package_bundle cwd root privateKeyPath fullChainPath outputPath =
     (let out = path_components cwd outputPath in
      case create_file root out (ZipArchive []) of
        Inl e \<Rightarrow> (Inl e, root)
      | Inr root' \<Rightarrow>
          (case zip_write_each cwd root'
                  [(privateKeyPath, ''privkey.pem''), (fullChainPath, ''fullchain.pem'')] [] of
             (r, filelist) \<Rightarrow>
               (case write_file root' out (ZipArchive filelist) of
                  Inl e \<Rightarrow> (Inl e, root')
                | Inr root'' \<Rightarrow> (r, root''))))"

section \<open>The invocation\<close>

text \<open>
  The state the handler acts on: the environment variables, the working directory, the
  local file system, the objects of the store, the requests made to the store so far,
  and for each coming request whether it fails for a reason outside the program.
  \<^verbatim>\<open>download_file\<close> fails when the object is absent; \<^verbatim>\<open>upload_file\<close> creates the
  object or overwrites it.
\<close>

datatype s3_call =
    Download_file string string string
  | Upload_file string string string

record world =
  environ :: "string \<rightharpoonup> string"
  getcwd :: string
  files :: node
  s3_objects :: "string \<times> string \<rightharpoonup> blob"
  s3_calls :: "s3_call list"
  s3_faults :: "bool list"

type_synonym step = "world \<Rightarrow> (error + unit) \<times> world"

definition s3_request :: "s3_call \<Rightarrow> world \<Rightarrow> world" where
  "s3_request c w = w\<lparr>s3_calls := s3_calls w @ [c], s3_faults := tl (s3_faults w)\<rparr>"

definition s3_fault :: "world \<Rightarrow> bool" where
  "s3_fault w = (case s3_faults w of [] \<Rightarrow> False | b # _ \<Rightarrow> b)"

definition s3_download_file :: "string \<Rightarrow> string \<Rightarrow> string \<Rightarrow> step" where
  "s3_download_file bucket key filename w =
     (let w' = s3_request (Download_file bucket key filename) w in
      if s3_fault w then (Inl (ClientError ''RequestFailed''), w')
      else
        (case s3_objects w (bucket, key) of
           None \<Rightarrow> (Inl (ClientError ''404''), w')
         | Some b \<Rightarrow>
             (case write_file (files w) (path_components (getcwd w) filename) b of
                Inl e \<Rightarrow> (Inl e, w')
              | Inr root \<Rightarrow> (Inr (), w'\<lparr>files := root\<rparr>))))"

definition s3_upload_file :: "string \<Rightarrow> string \<Rightarrow> string \<Rightarrow> step" where
  "s3_upload_file filename bucket key w =
     (let w' = s3_request (Upload_file filename bucket key) w in
      case read_file (files w) (path_components (getcwd w) filename) of
        Inl e \<Rightarrow> (Inl e, w')
      | Inr b \<Rightarrow>
          if s3_fault w then (Inl (ClientError ''RequestFailed''), w')
          else (Inr (), w'\<lparr>s3_objects := (s3_objects w)((bucket, key) \<mapsto> b)\<rparr>))"

text \<open>
  The statements of the handler, in order. An exception ends the run with the state
  reached so far. The ACME client \<open>certbot_main\<close> acts on the file system only.
  The arguments \<^verbatim>\<open>event\<close> and \<^verbatim>\<open>context\<close> are not used by the source, and
  creating the client of the store on line 9 changes nothing in the state. Opening
  the state archive for writing leaves a file of no bytes, which is not an archive;
  the members are in the file once the directory has been added.
\<close>

definition bucket_name :: "world \<Rightarrow> string \<Rightarrow> error + string" where
  "bucket_name w subdomain =
     (case environ w ''AWS_REGION'' of
        None \<Rightarrow> Inl (KeyError ''AWS_REGION'')
      | Some region \<Rightarrow> Inr (region @ ''.liquidity-certbot-runner-infrastructure-'' @ subdomain))"

definition download_state :: "string \<Rightarrow> step" where
  "download_state subdomain w =
     (case bucket_name w subdomain of
        Inl e \<Rightarrow> (Inl e, w)
      | Inr bucket \<Rightarrow> s3_download_file bucket ''state.tar'' ''/tmp/state.tar'' w)"

definition extract_state :: step where
  "extract_state w =
     (case read_file (files w) (path_components (getcwd w) ''/tmp/state.tar'') of
        Inl e \<Rightarrow> (Inl e, w)
      | Inr (TarArchive tar) \<Rightarrow>
          (case safe_extract (getcwd w) (files w) tar ''/tmp/config-dir'' None of
             (r, root) \<Rightarrow> (r, w\<lparr>files := root\<rparr>))
      | Inr _ \<Rightarrow> (Inl ReadError, w))"

definition certbot_args :: "string \<Rightarrow> string list" where
  "certbot_args subdomain =
     [''certonly'',
      ''--non-interactive'',
      ''--config-dir'', ''/tmp/config-dir'',
      ''--work-dir'', ''/tmp/work-dir'',
      ''--logs-dir'', ''/tmp/logs-dir'',
      ''--email'', ''admin@liquidityapp.com'',
      ''--agree-tos'',
      ''--dns-route53'',
      ''-d'', subdomain @ ''.liquidityapp.com'']"

type_synonym certbot = "string list \<Rightarrow> node \<Rightarrow> (error + unit) \<times> node"

definition run_certbot :: "certbot \<Rightarrow> string \<Rightarrow> step" where
  "run_certbot certbot_main subdomain w =
     (case certbot_main (certbot_args subdomain) (files w) of
        (r, root) \<Rightarrow> (r, w\<lparr>files := root\<rparr>))"

definition archive :: "string \<Rightarrow> node \<Rightarrow> string \<Rightarrow> string \<Rightarrow> (error + unit) \<times> node" where
  "archive cwd root sourceDir tarPath =
     (let out = path_components cwd tarPath in
      case write_file root out (Raw []) of
        Inl e \<Rightarrow> (Inl e, root)
      | Inr root' \<Rightarrow>
          (case lookup root' (path_components cwd sourceDir) of
             None \<Rightarrow> (Inl FileNotFoundError, root')
           | Some n \<Rightarrow>
               (case write_file root' out (TarArchive (tar_add n [])) of
                  Inl e \<Rightarrow> (Inl e, root')
                | Inr root'' \<Rightarrow> (Inr (), root''))))"

definition archive_state :: step where
  "archive_state w =
     (case archive (getcwd w) (files w) ''/tmp/config-dir'' ''/tmp/state.tar'' of
        (r, root) \<Rightarrow> (r, w\<lparr>files := root\<rparr>))"

definition upload_state :: "string \<Rightarrow> step" where
  "upload_state subdomain w =
     (case bucket_name w subdomain of
        Inl e \<Rightarrow> (Inl e, w)
      | Inr bucket \<Rightarrow> s3_upload_file ''/tmp/state.tar'' bucket ''state.tar'' w)"

definition package_certbundle :: "string \<Rightarrow> step" where
  "package_certbundle subdomain w =
     (case package_bundle (getcwd w) (files w)
             (''/tmp/config-dir/live/'' @ subdomain @ ''.liquidityapp.com/privkey.pem'')
             (''/tmp/config-dir/live/'' @ subdomain @ ''.liquidityapp.com/fullchain.pem'')
             ''/tmp/certbundle.zip'' of
        (r, root) \<Rightarrow> (r, w\<lparr>files := root\<rparr>))"

definition upload_certbundle :: "string \<Rightarrow> step" where
  "upload_certbundle subdomain w =
     (case bucket_name w subdomain of
        Inl e \<Rightarrow> (Inl e, w)
      | Inr bucket \<Rightarrow> s3_upload_file ''/tmp/certbundle.zip'' bucket ''certbundle.zip'' w)"

fun run :: "step list \<Rightarrow> step" where
  "run [] w = (Inr (), w)"
| "run (s # rest) w =
     (case s w of
        (Inl e, w') \<Rightarrow> (Inl e, w')
      | (Inr _, w') \<Rightarrow> run rest w')"

definition handler_steps :: "certbot \<Rightarrow> string \<Rightarrow> step list" where
  "handler_steps certbot_main subdomain =
     [download_state subdomain,
      extract_state,
      run_certbot certbot_main subdomain,
      archive_state,
      upload_state subdomain,
      package_certbundle subdomain,
      upload_certbundle subdomain]"

definition handler :: "certbot \<Rightarrow> step" where
  "handler certbot_main w =
     (case environ w ''SUBDOMAIN'' of
        None \<Rightarrow> (Inl (KeyError ''SUBDOMAIN''), w)
      | Some subdomain \<Rightarrow> run (handler_steps certbot_main subdomain) w)"

section \<open>Example states\<close>

text \<open>
  A stand-in for the ACME client that writes the two certificate files of the
  subdomain \<^verbatim>\<open>api\<close>, and states to evaluate the handler on.
\<close>

definition live_dir :: path where
  "live_dir = [''tmp'', ''config-dir'', ''live'', ''api.liquidityapp.com'']"

definition stub_certbot :: certbot where
  "stub_certbot args root =
     (case makedirs root live_dir of
        Inl e \<Rightarrow> (Inl e, root)
      | Inr r1 \<Rightarrow>
          (case write_file r1 (live_dir @ [''privkey.pem'']) (Raw ''KEY'') of
             Inl e \<Rightarrow> (Inl e, r1)
           | Inr r2 \<Rightarrow>
               (case write_file r2 (live_dir @ [''fullchain.pem'']) (Raw ''CHAIN'') of
                  Inl e \<Rightarrow> (Inl e, r2)
                | Inr r3 \<Rightarrow> (Inr (), r3))))"

definition example_bucket :: string where
  "example_bucket = ''eu-west-1.liquidity-certbot-runner-infrastructure-api''"

definition example_tar :: "tarinfo list" where
  "example_tar =
     [TarInfo [] DIRTYPE (Raw []),
      TarInfo ''accounts'' DIRTYPE (Raw []),
      TarInfo ''accounts/key'' REGTYPE (Raw ''k'')]"

definition example_world :: world where
  "example_world =
     \<lparr>environ = [''SUBDOMAIN'' \<mapsto> ''api'', ''AWS_REGION'' \<mapsto> ''eu-west-1''],
      getcwd = ''/var/task'',
      files = Dir [(''tmp'', Dir [])],
      s3_objects = [(example_bucket, ''state.tar'') \<mapsto> TarArchive example_tar],
      s3_calls = [],
      s3_faults = []\<rparr>"

section \<open>Views of the file system\<close>

text \<open>
  What a path holds, seen as a file or as a directory, and the trees a file system
  can be: in every directory the names are distinct, non-empty, free of slashes, and
  are not \<^verbatim>\<open>.\<close> or \<^verbatim>\<open>..\<close>.
\<close>

definition file_at :: "node \<Rightarrow> path \<Rightarrow> blob option" where
  "file_at root p = (case lookup root p of Some (File b) \<Rightarrow> Some b | _ \<Rightarrow> None)"

definition is_dir :: "node \<Rightarrow> path \<Rightarrow> bool" where
  "is_dir root p = (case lookup root p of Some (Dir _) \<Rightarrow> True | _ \<Rightarrow> False)"

definition valid_name :: "string \<Rightarrow> bool" where
  "valid_name c = (c \<noteq> [] \<and> CHR ''/'' \<notin> set c \<and> c \<noteq> ''.'' \<and> c \<noteq> ''..'')"

fun wf_node :: "node \<Rightarrow> bool" where
  "wf_node (File _) = True"
| "wf_node (Dir es) =
     (distinct (map fst es) \<and> (\<forall>(f, n) \<in> set es. valid_name f \<and> wf_node n))"

fun lookup_opt :: "node option \<Rightarrow> path \<Rightarrow> node option" where
  "lookup_opt None p = None"
| "lookup_opt (Some n) p = lookup n p"

fun is_file_node :: "node option \<Rightarrow> bool" where
  "is_file_node (Some (File _)) = True"
| "is_file_node _ = False"

fun is_dir_node :: "node option \<Rightarrow> bool" where
  "is_dir_node (Some (Dir _)) = True"
| "is_dir_node _ = False"

definition certs_written :: node where
  "certs_written =
     Dir [(''tmp'',
           Dir [(''config-dir'',
                 Dir [(''live'',
                       Dir [(''api.liquidityapp.com'',
                             Dir [(''privkey.pem'', File (Raw ''KEY'')),
                                  (''fullchain.pem'', File (Raw ''CHAIN''))])])])])]"

definition certs_bundled :: node where
  "certs_bundled =
     Dir [(''tmp'',
           Dir [(''config-dir'',
                 Dir [(''live'',
                       Dir [(''api.liquidityapp.com'',
                             Dir [(''privkey.pem'', File (Raw ''KEY'')),
                                  (''fullchain.pem'', File (Raw ''CHAIN''))])])]),
                (''certbundle.zip'',
                 File (ZipArchive [ZipInfo ''privkey.pem'' (Raw ''KEY''),
                                   ZipInfo ''fullchain.pem'' (Raw ''CHAIN'')]))])]"

definition warm_world :: world where
  "warm_world =
     example_world\<lparr>files := Dir [(''tmp'', Dir [(''certbundle.zip'', File (Raw ''old''))])]\<rparr>"






section \<open>The validation predicate\<close>

lemma common_prefix_eq_iff: "common_prefix a b = a \<longleftrightarrow> prefix a b"
  by (induction a b rule: common_prefix.induct) auto

lemma is_within_directory_iff:
  "is_within_directory cwd directory target
     \<longleftrightarrow> prefix (abspath cwd directory) (abspath cwd target)"
  by (simp add: is_within_directory_def commonprefix_def common_prefix_eq_iff)

lemma validate_members_iff:
  "validate_members cwd path tar = Inr ()
     \<longleftrightarrow> (\<forall>member \<in> set tar. is_within_directory cwd path (join path (name member)))"
  by (induction tar) (auto simp: Let_def)

lemma validate_members_error:
  "validate_members cwd path tar = Inl e
     \<Longrightarrow> e = Exception ''Attempted Path Traversal in Tar File''"
  by (induction tar) (auto simp: Let_def split: if_splits)

text \<open>
  C3: the check of one archive member succeeds exactly when the absolute path of the
  destination directory is a prefix, as a string, of the absolute path of the
  destination joined with the member's name. So a member that resolves to the
  destination itself passes, and so does a member whose absolute path extends the
  destination's path by any characters at all, such as a sibling directory
  \<^verbatim>\<open>/tmp/config-dir-extra\<close> of \<^verbatim>\<open>/tmp/config-dir\<close>.
\<close>

theorem validation_accepts_string_prefix:
  "(validate_members cwd path [member] = Inr ()
      \<longleftrightarrow> prefix (abspath cwd path) (abspath cwd (join path (name member))))
   \<and> (abspath cwd (join path (name member)) = abspath cwd path
        \<longrightarrow> validate_members cwd path [member] = Inr ())
   \<and> (\<forall>ext. abspath cwd (join path (name member)) = abspath cwd path @ ext
        \<longrightarrow> validate_members cwd path [member] = Inr ())"
  by (auto simp: validate_members_iff is_within_directory_iff)

theorem validation_accepts_string_prefix_witness:
  "abspath ''/var/task''
       (join ''/tmp/config-dir'' (name (TarInfo ''../config-dir-extra/file'' REGTYPE (Raw ''x''))))
     = abspath ''/var/task'' ''/tmp/config-dir'' @ ''-extra/file''
   \<and> validate_members ''/var/task'' ''/tmp/config-dir''
        [TarInfo ''../config-dir-extra/file'' REGTYPE (Raw ''x'')] = Inr ()
   \<and> abspath ''/var/task'' (join ''/tmp/config-dir'' (name (TarInfo [] DIRTYPE (Raw []))))
     = abspath ''/var/task'' ''/tmp/config-dir''
   \<and> validate_members ''/var/task'' ''/tmp/config-dir'' [TarInfo [] DIRTYPE (Raw [])] = Inr ()"
proof -
  have sibling:
    "abspath ''/var/task''
       (join ''/tmp/config-dir'' (name (TarInfo ''../config-dir-extra/file'' REGTYPE (Raw ''x''))))
     = abspath ''/var/task'' ''/tmp/config-dir'' @ ''-extra/file''"
    by code_simp
  have itself:
    "abspath ''/var/task'' (join ''/tmp/config-dir'' (name (TarInfo [] DIRTYPE (Raw []))))
     = abspath ''/var/task'' ''/tmp/config-dir''"
    by code_simp
  from sibling itself
    validation_accepts_string_prefix [of "''/var/task''" "''/tmp/config-dir''"
      "TarInfo ''../config-dir-extra/file'' REGTYPE (Raw ''x'')"]
    validation_accepts_string_prefix [of "''/var/task''" "''/tmp/config-dir''"
      "TarInfo [] DIRTYPE (Raw [])"]
  show ?thesis by blast
qed

section \<open>Validation before extraction\<close>

text \<open>
  C2: \<open>safe_extract\<close> checks every member of the archive before it extracts one. If
  the check of any member fails, the call raises and the file system is the one it
  was given: nothing has been written. Only when every member passes does it hand
  the archive to \<open>extractall\<close>.
\<close>

theorem safe_extract_validates_first:
  "((\<exists>member \<in> set tar. \<not> is_within_directory cwd path (join path (name member)))
      \<longrightarrow> safe_extract cwd root tar path members
            = (Inl (Exception ''Attempted Path Traversal in Tar File''), root))
   \<and> ((\<forall>member \<in> set tar. is_within_directory cwd path (join path (name member)))
      \<longrightarrow> safe_extract cwd root tar path members = extractall cwd root tar path members)"
proof (cases "validate_members cwd path tar")
  case (Inl e)
  then show ?thesis
    using validate_members_error [OF Inl] validate_members_iff [of cwd path tar]
    by (auto simp: safe_extract_def)
next
  case (Inr u)
  then show ?thesis
    using validate_members_iff [of cwd path tar]
    by (auto simp: safe_extract_def)
qed

theorem safe_extract_validates_first_witness:
  "safe_extract ''/var/task'' (Dir [(''tmp'', Dir [])])
       [TarInfo ''a/b'' REGTYPE (Raw ''x''), TarInfo ''../../etc/passwd'' REGTYPE (Raw ''y'')]
       ''/tmp/config-dir'' None
     = (Inl (Exception ''Attempted Path Traversal in Tar File''), Dir [(''tmp'', Dir [])])
   \<and> safe_extract ''/var/task'' (Dir [(''tmp'', Dir [])]) example_tar ''/tmp/config-dir'' None
     = extractall ''/var/task'' (Dir [(''tmp'', Dir [])]) example_tar ''/tmp/config-dir'' None"
proof -
  have bad:
    "\<exists>member \<in> set [TarInfo ''a/b'' REGTYPE (Raw ''x''),
                      TarInfo ''../../etc/passwd'' REGTYPE (Raw ''y'')].
       \<not> is_within_directory ''/var/task'' ''/tmp/config-dir''
           (join ''/tmp/config-dir'' (name member))"
    by code_simp
  have good:
    "\<forall>member \<in> set example_tar.
       is_within_directory ''/var/task'' ''/tmp/config-dir''
         (join ''/tmp/config-dir'' (name member))"
    by code_simp
  from bad good
    safe_extract_validates_first [of
      "[TarInfo ''a/b'' REGTYPE (Raw ''x''), TarInfo ''../../etc/passwd'' REGTYPE (Raw ''y'')]"
      "''/var/task''" "''/tmp/config-dir''" "Dir [(''tmp'', Dir [])]" None]
    safe_extract_validates_first [of example_tar
      "''/var/task''" "''/tmp/config-dir''" "Dir [(''tmp'', Dir [])]" None]
  show ?thesis by blast
qed

section \<open>The environment\<close>

text \<open>
  C10: when the variable \<^verbatim>\<open>SUBDOMAIN\<close> is not set, the handler raises a
  \<^verbatim>\<open>KeyError\<close> and the state is untouched: no request has gone to the store and no
  file was written. When \<^verbatim>\<open>SUBDOMAIN\<close> is set and \<^verbatim>\<open>AWS_REGION\<close> is not, it raises a
  \<^verbatim>\<open>KeyError\<close> as well, again before the first request.
\<close>

theorem handler_missing_environment:
  "(environ w ''SUBDOMAIN'' = None
      \<longrightarrow> handler certbot_main w = (Inl (KeyError ''SUBDOMAIN''), w))
   \<and> (environ w ''SUBDOMAIN'' \<noteq> None \<and> environ w ''AWS_REGION'' = None
      \<longrightarrow> handler certbot_main w = (Inl (KeyError ''AWS_REGION''), w))"
  by (auto simp: handler_def handler_steps_def download_state_def bucket_name_def)

theorem handler_missing_environment_witness:
  "handler stub_certbot (example_world\<lparr>environ := Map.empty\<rparr>)
     = (Inl (KeyError ''SUBDOMAIN''), example_world\<lparr>environ := Map.empty\<rparr>)
   \<and> handler stub_certbot (example_world\<lparr>environ := [''SUBDOMAIN'' \<mapsto> ''api'']\<rparr>)
     = (Inl (KeyError ''AWS_REGION''), example_world\<lparr>environ := [''SUBDOMAIN'' \<mapsto> ''api'']\<rparr>)"
  using handler_missing_environment [of "example_world\<lparr>environ := Map.empty\<rparr>" stub_certbot]
    handler_missing_environment
      [of "example_world\<lparr>environ := [''SUBDOMAIN'' \<mapsto> ''api'']\<rparr>" stub_certbot]
  by simp

section \<open>Facts about the file system operations\<close>






lemma put_success:
  "p \<noteq> [] \<Longrightarrow> is_dir_node (lookup_opt no (butlast p)) \<Longrightarrow> \<not> is_dir_node (lookup_opt no p)
     \<Longrightarrow> \<exists>m. put no p b = Inr m"
proof (induction no p b rule: put.induct)
  case (6 es c cs b)
  show ?case
  proof (cases cs)
    case Nil
    with 6(4) show ?thesis
      by (cases "map_of es c"; cases "the (map_of es c)") auto
  next
    case (Cons d ds)
    have "\<exists>m. put (map_of es c) cs b = Inr m"
    proof (rule 6(1))
      show "cs \<noteq> []" using Cons by simp
      show "is_dir_node (lookup_opt (map_of es c) (butlast cs))"
        using 6(3) Cons by (cases "map_of es c") auto
      show "\<not> is_dir_node (lookup_opt (map_of es c) cs)"
        using 6(4) by (cases "map_of es c") auto
    qed
    then show ?thesis by auto
  qed
qed (auto split: if_splits)






lemma wf_lookup: "wf_node n \<Longrightarrow> lookup n p = Some m \<Longrightarrow> wf_node m"
proof (induction n p rule: lookup.induct)
  case (3 es c cs)
  then show ?case by (auto split: option.splits dest: map_of_SomeD)
qed auto

lemma put_lookup_same: "put no p b = Inr m \<Longrightarrow> lookup m p = Some (File b)"
  by (induction no p b arbitrary: m rule: put.induct)
     (auto split: sum.splits simp: update_conv')

lemma put_lookup_other:
  "put no p b = Inr m \<Longrightarrow> \<not> prefix q p \<Longrightarrow> lookup m q = lookup_opt no q"
proof (induction no p b arbitrary: m q rule: put.induct)
  case (6 es c cs b)
  then obtain m' where m': "put (map_of es c) cs b = Inr m'"
    and m: "m = Dir (AList.update c m' es)"
    by (auto split: sum.splits)
  show ?case
  proof (cases q)
    case Nil
    with 6 show ?thesis by simp
  next
    case (Cons d ds)
    show ?thesis
    proof (cases "d = c")
      case True
      with Cons 6(3) have "\<not> prefix ds cs" by simp
      from "6.IH"[OF m' this] show ?thesis using Cons True m
        by (cases "map_of es c") (auto simp: update_conv')
    next
      case False
      then show ?thesis using Cons m by (auto simp: update_conv')
    qed
  qed
qed (auto split: sum.splits list.splits simp: neq_Nil_conv)

lemma put_lookup_prefix:
  "put no p b = Inr m \<Longrightarrow> strict_prefix q p \<Longrightarrow>
     is_dir_node (lookup_opt no q) \<and> is_dir_node (lookup m q)"
proof (induction no p b arbitrary: m q rule: put.induct)
  case (6 es c cs b)
  then obtain m' where m': "put (map_of es c) cs b = Inr m'"
    and m: "m = Dir (AList.update c m' es)"
    by (auto split: sum.splits)
  show ?case
  proof (cases q)
    case Nil
    with m show ?thesis by simp
  next
    case (Cons d ds)
    with 6(3) have d: "d = c" and "strict_prefix ds cs" by (auto simp: strict_prefix_def)
    from "6.IH"[OF m' this(2)] show ?thesis using Cons d m
      by (cases "map_of es c") (auto simp: update_conv')
  qed
qed (auto split: sum.splits)

section \<open>The certificate bundle\<close>

lemma zip_arcname_privkey: "zip_arcname ''privkey.pem'' = ''privkey.pem''"
  by code_simp

lemma zip_arcname_fullchain: "zip_arcname ''fullchain.pem'' = ''fullchain.pem''"
  by code_simp

lemma write_file_lookup_same: "write_file root p b = Inr m \<Longrightarrow> lookup m p = Some (File b)"
  unfolding write_file_def by (rule put_lookup_same)

lemma file_not_prefix_of_written:
  assumes w: "write_file root p b = Inr m" and f: "file_at root q = Some x" and pq: "q \<noteq> p"
  shows "\<not> prefix q p"
proof
  assume "prefix q p"
  with pq have "strict_prefix q p" by (simp add: strict_prefix_def)
  from put_lookup_prefix [OF w [unfolded write_file_def] this] f
  show False by (auto simp: file_at_def split: option.splits node.splits)
qed

lemma write_file_file_at_other:
  assumes w: "write_file root p b = Inr m" and f: "file_at root q = Some x" and pq: "q \<noteq> p"
  shows "file_at m q = Some x"
  using put_lookup_other [OF w [unfolded write_file_def] file_not_prefix_of_written [OF w f pq]] f
  by (simp add: file_at_def)

lemma write_file_overwrite_success:
  assumes "lookup root p = Some (File x)" and w: "write_file root0 p x = Inr root"
  shows "\<exists>m. write_file root p b = Inr m"
proof -
  from w have "p \<noteq> [] \<or> (\<exists>y. root0 = File y)"
    by (cases p; cases root0) (auto simp: write_file_def)
  show ?thesis
  proof (cases p)
    case Nil
    with assms(1) show ?thesis by (simp add: write_file_def)
  next
    case (Cons c cs)
    then have "strict_prefix (butlast p) p"
      by (metis append_butlast_last_id list.distinct(1) prefix_def self_append_conv strict_prefix_def)
    from put_lookup_prefix [OF w [unfolded write_file_def] this]
    have "is_dir_node (lookup_opt (Some root) (butlast p))" by simp
    moreover have "\<not> is_dir_node (lookup_opt (Some root) p)" using assms(1) by simp
    ultimately show ?thesis
      unfolding write_file_def using put_success [of p "Some root" b] Cons by blast
  qed
qed

text \<open>
  C5: the bundle is created in exclusive mode. When something already exists at the
  output path, \<open>package_bundle\<close> raises \<^verbatim>\<open>FileExistsError\<close> and leaves the file system
  as it was. So after a call that succeeded, a second call at the same output path,
  whatever its source paths, raises \<^verbatim>\<open>FileExistsError\<close> and changes nothing: the
  first bundle stays as written.
\<close>

theorem package_bundle_exclusive:
  "(lookup root (path_components cwd outputPath) \<noteq> None
      \<longrightarrow> package_bundle cwd root privateKeyPath fullChainPath outputPath
            = (Inl FileExistsError, root))
   \<and> (package_bundle cwd root privateKeyPath fullChainPath outputPath = (Inr (), root')
      \<longrightarrow> package_bundle cwd root' privateKeyPath' fullChainPath' outputPath
            = (Inl FileExistsError, root'))"
proof -
  have first: "package_bundle cwd r k c outputPath = (Inl FileExistsError, r)"
    if "lookup r (path_components cwd outputPath) \<noteq> None" for r k c
    using that by (simp add: package_bundle_def create_file_def)
  have "lookup root' (path_components cwd outputPath) \<noteq> None"
    if "package_bundle cwd root privateKeyPath fullChainPath outputPath = (Inr (), root')"
    using that
    by (auto simp: package_bundle_def Let_def write_file_lookup_same
             split: sum.splits prod.splits)
  with first show ?thesis by blast
qed

theorem package_bundle_exclusive_witness:
  "package_bundle ''/var/task'' certs_bundled
       ''/tmp/config-dir/live/api.liquidityapp.com/privkey.pem''
       ''/tmp/config-dir/live/api.liquidityapp.com/fullchain.pem'' ''/tmp/certbundle.zip''
     = (Inl FileExistsError, certs_bundled)
   \<and> package_bundle ''/var/task'' certs_written
       ''/tmp/config-dir/live/api.liquidityapp.com/privkey.pem''
       ''/tmp/config-dir/live/api.liquidityapp.com/fullchain.pem'' ''/tmp/certbundle.zip''
     = (Inr (), certs_bundled)
   \<and> package_bundle ''/var/task'' certs_bundled ''/nowhere/a'' ''/nowhere/b''
       ''/tmp/certbundle.zip''
     = (Inl FileExistsError, certs_bundled)"
proof -
  have there: "lookup certs_bundled (path_components ''/var/task'' ''/tmp/certbundle.zip'') \<noteq> None"
    by code_simp
  have once: "package_bundle ''/var/task'' certs_written
       ''/tmp/config-dir/live/api.liquidityapp.com/privkey.pem''
       ''/tmp/config-dir/live/api.liquidityapp.com/fullchain.pem'' ''/tmp/certbundle.zip''
     = (Inr (), certs_bundled)"
    by code_simp
  from there once
    package_bundle_exclusive [of certs_bundled "''/var/task''" "''/tmp/certbundle.zip''"
      "''/tmp/config-dir/live/api.liquidityapp.com/privkey.pem''"
      "''/tmp/config-dir/live/api.liquidityapp.com/fullchain.pem''"]
    package_bundle_exclusive [of certs_written "''/var/task''" "''/tmp/certbundle.zip''"
      "''/tmp/config-dir/live/api.liquidityapp.com/privkey.pem''"
      "''/tmp/config-dir/live/api.liquidityapp.com/fullchain.pem''"
      certs_bundled "''/nowhere/a''" "''/nowhere/b''"]
  show ?thesis by blast
qed

text \<open>
  C8: whatever the two source paths are, when each holds a regular file and the output
  path is free in an existing directory, \<open>package_bundle\<close> succeeds and the archive it
  leaves at the output path has exactly two entries, \<^verbatim>\<open>privkey.pem\<close> and
  \<^verbatim>\<open>fullchain.pem\<close> in that order, holding the contents of the two files. No part of
  a source path appears in an entry name.
\<close>

theorem package_bundle_two_entries:
  assumes key: "file_at root (path_components cwd privateKeyPath) = Some key"
    and chain: "file_at root (path_components cwd fullChainPath) = Some chain"
    and absent: "lookup root (path_components cwd outputPath) = None"
    and parent: "is_dir root (butlast (path_components cwd outputPath))"
  shows "\<exists>root'. package_bundle cwd root privateKeyPath fullChainPath outputPath = (Inr (), root')
           \<and> read_file root' (path_components cwd outputPath)
               = Inr (ZipArchive [ZipInfo ''privkey.pem'' key, ZipInfo ''fullchain.pem'' chain])"
proof -
  let ?out = "path_components cwd outputPath"
  from absent have ne: "?out \<noteq> []" by auto
  have "\<not> is_dir_node (lookup_opt (Some root) ?out)" using absent by simp
  moreover have "is_dir_node (lookup_opt (Some root) (butlast ?out))"
    using parent by (auto simp: is_dir_def split: option.splits node.splits)
  ultimately obtain r1 where r1: "write_file root ?out (ZipArchive []) = Inr r1"
    unfolding write_file_def using put_success [OF ne] by blast
  have kne: "path_components cwd privateKeyPath \<noteq> ?out"
    and cne: "path_components cwd fullChainPath \<noteq> ?out"
    using key chain absent by (auto simp: file_at_def)
  have k1: "file_at r1 (path_components cwd privateKeyPath) = Some key"
    by (rule write_file_file_at_other [OF r1 key kne])
  have c1: "file_at r1 (path_components cwd fullChainPath) = Some chain"
    by (rule write_file_file_at_other [OF r1 chain cne])
  have zk: "zip_entry cwd r1 privateKeyPath ''privkey.pem'' = Inr (ZipInfo ''privkey.pem'' key)"
    using k1 by (auto simp: zip_entry_def file_at_def zip_arcname_privkey
                      split: option.splits node.splits)
  have zc: "zip_entry cwd r1 fullChainPath ''fullchain.pem'' = Inr (ZipInfo ''fullchain.pem'' chain)"
    using c1 by (auto simp: zip_entry_def file_at_def zip_arcname_fullchain
                      split: option.splits node.splits)
  obtain r2 where r2: "write_file r1 ?out
      (ZipArchive [ZipInfo ''privkey.pem'' key, ZipInfo ''fullchain.pem'' chain]) = Inr r2"
    using write_file_overwrite_success [OF write_file_lookup_same [OF r1] r1] by blast
  have "package_bundle cwd root privateKeyPath fullChainPath outputPath = (Inr (), r2)"
    using absent r1 zk zc r2 by (simp add: package_bundle_def create_file_def)
  moreover have "read_file r2 ?out
      = Inr (ZipArchive [ZipInfo ''privkey.pem'' key, ZipInfo ''fullchain.pem'' chain])"
    using write_file_lookup_same [OF r2] by (simp add: read_file_def)
  ultimately show ?thesis by blast
qed

theorem package_bundle_two_entries_witness:
  "file_at certs_written
       (path_components ''/var/task'' ''/tmp/config-dir/live/api.liquidityapp.com/privkey.pem'')
     = Some (Raw ''KEY'')
   \<and> file_at certs_written
       (path_components ''/var/task'' ''/tmp/config-dir/live/api.liquidityapp.com/fullchain.pem'')
     = Some (Raw ''CHAIN'')
   \<and> lookup certs_written (path_components ''/var/task'' ''/tmp/certbundle.zip'') = None
   \<and> is_dir certs_written (butlast (path_components ''/var/task'' ''/tmp/certbundle.zip''))
   \<and> (\<exists>root'. package_bundle ''/var/task'' certs_written
          ''/tmp/config-dir/live/api.liquidityapp.com/privkey.pem''
          ''/tmp/config-dir/live/api.liquidityapp.com/fullchain.pem'' ''/tmp/certbundle.zip''
        = (Inr (), root')
      \<and> read_file root' (path_components ''/var/task'' ''/tmp/certbundle.zip'')
        = Inr (ZipArchive [ZipInfo ''privkey.pem'' (Raw ''KEY''),
                           ZipInfo ''fullchain.pem'' (Raw ''CHAIN'')]))"
proof -
  have key: "file_at certs_written
       (path_components ''/var/task'' ''/tmp/config-dir/live/api.liquidityapp.com/privkey.pem'')
     = Some (Raw ''KEY'')"
    by code_simp
  have chain: "file_at certs_written
       (path_components ''/var/task'' ''/tmp/config-dir/live/api.liquidityapp.com/fullchain.pem'')
     = Some (Raw ''CHAIN'')"
    by code_simp
  have absent: "lookup certs_written (path_components ''/var/task'' ''/tmp/certbundle.zip'') = None"
    by code_simp
  have parent: "is_dir certs_written (butlast (path_components ''/var/task'' ''/tmp/certbundle.zip''))"
    by code_simp
  from package_bundle_two_entries [OF key chain absent parent] key chain absent parent
  show ?thesis by blast
qed

section \<open>The steps of the handler and the object store\<close>

lemma path_components_state_tar [simp]:
  "path_components cwd ''/tmp/state.tar'' = [''tmp'', ''state.tar'']"
  by (simp add: path_components_def abspath_def isabs_def, code_simp)

lemma path_components_config_dir [simp]:
  "path_components cwd ''/tmp/config-dir'' = [''tmp'', ''config-dir'']"
  by (simp add: path_components_def abspath_def isabs_def, code_simp)

lemma path_components_certbundle [simp]:
  "path_components cwd ''/tmp/certbundle.zip'' = [''tmp'', ''certbundle.zip'']"
  by (simp add: path_components_def abspath_def isabs_def, code_simp)

lemma download_state_frame:
  assumes "environ v ''AWS_REGION'' = Some region" and "download_state subdomain v = (r, v')"
  shows "environ v' = environ v \<and> getcwd v' = getcwd v \<and> s3_objects v' = s3_objects v
    \<and> s3_calls v' = s3_calls v
        @ [Download_file (region @ ''.liquidity-certbot-runner-infrastructure-'' @ subdomain)
             ''state.tar'' ''/tmp/state.tar'']"
  using assms
  by (auto simp: download_state_def bucket_name_def s3_download_file_def s3_request_def Let_def
           split: if_splits option.splits sum.splits)

lemma upload_state_frame:
  assumes "environ v ''AWS_REGION'' = Some region" and "upload_state subdomain v = (r, v')"
  shows "environ v' = environ v \<and> getcwd v' = getcwd v \<and> files v' = files v
    \<and> s3_calls v' = s3_calls v
        @ [Upload_file ''/tmp/state.tar''
             (region @ ''.liquidity-certbot-runner-infrastructure-'' @ subdomain) ''state.tar'']"
  using assms
  by (auto simp: upload_state_def bucket_name_def s3_upload_file_def s3_request_def Let_def
           split: if_splits option.splits sum.splits)

lemma upload_certbundle_frame:
  assumes "environ v ''AWS_REGION'' = Some region" and "upload_certbundle subdomain v = (r, v')"
  shows "environ v' = environ v \<and> getcwd v' = getcwd v \<and> files v' = files v
    \<and> s3_calls v' = s3_calls v
        @ [Upload_file ''/tmp/certbundle.zip''
             (region @ ''.liquidity-certbot-runner-infrastructure-'' @ subdomain)
             ''certbundle.zip'']"
  using assms
  by (auto simp: upload_certbundle_def bucket_name_def s3_upload_file_def s3_request_def Let_def
           split: if_splits option.splits sum.splits)

lemma extract_state_frame:
  "extract_state v = (r, v') \<Longrightarrow>
     environ v' = environ v \<and> getcwd v' = getcwd v \<and> s3_objects v' = s3_objects v
       \<and> s3_calls v' = s3_calls v"
  by (auto simp: extract_state_def split: sum.splits blob.splits prod.splits)

lemma run_certbot_frame:
  "run_certbot certbot_main subdomain v = (r, v') \<Longrightarrow>
     environ v' = environ v \<and> getcwd v' = getcwd v \<and> s3_objects v' = s3_objects v
       \<and> s3_calls v' = s3_calls v"
  by (auto simp: run_certbot_def split: prod.splits)

lemma archive_state_frame:
  "archive_state v = (r, v') \<Longrightarrow>
     environ v' = environ v \<and> getcwd v' = getcwd v \<and> s3_objects v' = s3_objects v
       \<and> s3_calls v' = s3_calls v"
  by (auto simp: archive_state_def split: prod.splits)

lemma package_certbundle_frame:
  "package_certbundle subdomain v = (r, v') \<Longrightarrow>
     environ v' = environ v \<and> getcwd v' = getcwd v \<and> s3_objects v' = s3_objects v
       \<and> s3_calls v' = s3_calls v"
  by (auto simp: package_certbundle_def split: prod.splits)

lemma run_logs:
  assumes "list_all2 (\<lambda>s c. \<forall>v r v'. environ v = env \<longrightarrow> s v = (r, v')
              \<longrightarrow> environ v' = env \<and> s3_calls v' = s3_calls v @ c) ss cs"
    and "environ w = env" and "run ss w = (r, w')"
  shows "\<exists>k \<le> length cs. s3_calls w' = s3_calls w @ concat (take k cs)
           \<and> (r = Inr () \<longrightarrow> k = length cs)"
  using assms
proof (induction ss cs arbitrary: w rule: list_all2_induct)
  case Nil
  then show ?case by auto
next
  case (Cons s ss c cs)
  obtain r1 w1 where s: "s w = (r1, w1)" by (cases "s w")
  from Cons(1) Cons(4) s have w1: "environ w1 = env" "s3_calls w1 = s3_calls w @ c" by blast+
  show ?case
  proof (cases r1)
    case (Inl e)
    with s Cons(5) have "w' = w1" "r = Inl e" by auto
    then have "s3_calls w' = s3_calls w @ concat (take 1 (c # cs)) \<and> (r = Inr () \<longrightarrow> (1::nat) = length (c # cs))"
      using w1 by simp
    then show ?thesis by (intro exI [of _ 1]) simp
  next
    case (Inr u)
    with s Cons(5) have "run ss w1 = (r, w')" by auto
    from Cons(3) [OF w1(1) this] obtain k where
      k: "k \<le> length cs" "s3_calls w' = s3_calls w1 @ concat (take k cs)"
         "r = Inr () \<longrightarrow> k = length cs" by blast
    then show ?thesis using w1 by (intro exI [of _ "Suc k"]) simp
  qed
qed

lemma concat_take_prefix: "prefix (concat (take k cs)) (concat cs)"
  by (metis append_take_drop_id concat_append prefixI)

text \<open>
  C9: with the region and the subdomain set, every request the handler makes to the
  store names the bucket \<^verbatim>\<open><region>.liquidity-certbot-runner-infrastructure-<subdomain>\<close>.
  The requests are, in order, the download of the key \<^verbatim>\<open>state.tar\<close>, the upload to the
  same key \<^verbatim>\<open>state.tar\<close>, and the upload to the key \<^verbatim>\<open>certbundle.zip\<close>: a run that
  fails makes an initial part of this sequence, a run that succeeds makes all three.
\<close>

theorem handler_storage_names:
  assumes sub: "environ w ''SUBDOMAIN'' = Some subdomain"
    and reg: "environ w ''AWS_REGION'' = Some region"
    and h: "handler certbot_main w = (r, w')"
  shows "\<exists>calls. s3_calls w' = s3_calls w @ calls
    \<and> prefix calls
        [Download_file (region @ ''.liquidity-certbot-runner-infrastructure-'' @ subdomain)
           ''state.tar'' ''/tmp/state.tar'',
         Upload_file ''/tmp/state.tar''
           (region @ ''.liquidity-certbot-runner-infrastructure-'' @ subdomain) ''state.tar'',
         Upload_file ''/tmp/certbundle.zip''
           (region @ ''.liquidity-certbot-runner-infrastructure-'' @ subdomain)
           ''certbundle.zip'']
    \<and> (r = Inr () \<longrightarrow> calls =
        [Download_file (region @ ''.liquidity-certbot-runner-infrastructure-'' @ subdomain)
           ''state.tar'' ''/tmp/state.tar'',
         Upload_file ''/tmp/state.tar''
           (region @ ''.liquidity-certbot-runner-infrastructure-'' @ subdomain) ''state.tar'',
         Upload_file ''/tmp/certbundle.zip''
           (region @ ''.liquidity-certbot-runner-infrastructure-'' @ subdomain)
           ''certbundle.zip''])"
proof -
  let ?b = "region @ ''.liquidity-certbot-runner-infrastructure-'' @ subdomain"
  let ?cs = "[[Download_file ?b ''state.tar'' ''/tmp/state.tar''], [], [], [],
              [Upload_file ''/tmp/state.tar'' ?b ''state.tar''], [],
              [Upload_file ''/tmp/certbundle.zip'' ?b ''certbundle.zip'']]"
  from h sub have run: "run (handler_steps certbot_main subdomain) w = (r, w')"
    by (simp add: handler_def)
  have env: "environ w = environ w" ..
  let ?L = "\<lambda>s c. \<forall>v r v'. environ v = environ w \<longrightarrow> s v = (r, v')
              \<longrightarrow> environ v' = environ w \<and> s3_calls v' = s3_calls v @ c"
  have l1: "?L (download_state subdomain) [Download_file ?b ''state.tar'' ''/tmp/state.tar'']"
  proof (intro allI impI)
    fix v r v' assume v: "environ v = environ w" "download_state subdomain v = (r, v')"
    with reg have "environ v ''AWS_REGION'' = Some region" by simp
    from download_state_frame [OF this v(2)] v(1)
    show "environ v' = environ w
      \<and> s3_calls v' = s3_calls v @ [Download_file ?b ''state.tar'' ''/tmp/state.tar'']"
      by simp
  qed
  have l2: "?L extract_state []"
    using extract_state_frame by fastforce
  have l3: "?L (run_certbot certbot_main subdomain) []"
    using run_certbot_frame by fastforce
  have l4: "?L archive_state []"
    using archive_state_frame by fastforce
  have l5: "?L (upload_state subdomain) [Upload_file ''/tmp/state.tar'' ?b ''state.tar'']"
  proof (intro allI impI)
    fix v r v' assume v: "environ v = environ w" "upload_state subdomain v = (r, v')"
    with reg have "environ v ''AWS_REGION'' = Some region" by simp
    from upload_state_frame [OF this v(2)] v(1)
    show "environ v' = environ w
      \<and> s3_calls v' = s3_calls v @ [Upload_file ''/tmp/state.tar'' ?b ''state.tar'']"
      by simp
  qed
  have l6: "?L (package_certbundle subdomain) []"
    using package_certbundle_frame by fastforce
  have l7: "?L (upload_certbundle subdomain)
              [Upload_file ''/tmp/certbundle.zip'' ?b ''certbundle.zip'']"
  proof (intro allI impI)
    fix v r v' assume v: "environ v = environ w" "upload_certbundle subdomain v = (r, v')"
    with reg have "environ v ''AWS_REGION'' = Some region" by simp
    from upload_certbundle_frame [OF this v(2)] v(1)
    show "environ v' = environ w
      \<and> s3_calls v' = s3_calls v @ [Upload_file ''/tmp/certbundle.zip'' ?b ''certbundle.zip'']"
      by simp
  qed
  have "list_all2 ?L (handler_steps certbot_main subdomain) ?cs"
    unfolding handler_steps_def
    by (intro list_all2_Cons [THEN iffD2] conjI l1 l2 l3 l4 l5 l6 l7) simp
  from run_logs [OF this env run] obtain k where
    k: "k \<le> length ?cs" "s3_calls w' = s3_calls w @ concat (take k ?cs)"
       "r = Inr () \<longrightarrow> k = length ?cs" by blast
  have "prefix (concat (take k ?cs)) (concat ?cs)" by (rule concat_take_prefix)
  moreover have "r = Inr () \<longrightarrow> concat (take k ?cs) = concat ?cs" using k(3) by simp
  ultimately show ?thesis using k(2) by (intro exI [of _ "concat (take k ?cs)"]) simp
qed
theorem handler_storage_names_witness:
  "environ example_world ''SUBDOMAIN'' = Some ''api''
   \<and> environ example_world ''AWS_REGION'' = Some ''eu-west-1''
   \<and> fst (handler stub_certbot example_world) = Inr ()
   \<and> s3_calls (snd (handler stub_certbot example_world))
     = [Download_file ''eu-west-1.liquidity-certbot-runner-infrastructure-api''
          ''state.tar'' ''/tmp/state.tar'',
        Upload_file ''/tmp/state.tar''
          ''eu-west-1.liquidity-certbot-runner-infrastructure-api'' ''state.tar'',
        Upload_file ''/tmp/certbundle.zip''
          ''eu-west-1.liquidity-certbot-runner-infrastructure-api'' ''certbundle.zip'']"
proof -
  have sub: "environ example_world ''SUBDOMAIN'' = Some ''api''"
    by (simp add: example_world_def)
  have reg: "environ example_world ''AWS_REGION'' = Some ''eu-west-1''"
    by (simp add: example_world_def)
  have ok: "fst (handler stub_certbot example_world) = Inr ()"
    by code_simp
  have h: "handler stub_certbot example_world
      = (Inr (), snd (handler stub_certbot example_world))"
    using ok by (simp add: prod_eq_iff)
  have start: "s3_calls example_world = []"
    by (simp add: example_world_def)
  from handler_storage_names [OF sub reg h] start sub reg ok
  show ?thesis by auto
qed

lemma run_Cons_ok:
  "run (s # rest) w = (Inr (), w') \<Longrightarrow> \<exists>w1. s w = (Inr (), w1) \<and> run rest w1 = (Inr (), w')"
  by (auto split: prod.splits sum.splits)

lemma run_append_fail:
  "run before w = (Inr (), w1) \<Longrightarrow> s w1 = (Inl e, w2)
     \<Longrightarrow> run (before @ s # rest) w = (Inl e, w2)"
proof (induction before arbitrary: w)
  case Nil
  then show ?case by simp
next
  case (Cons a before)
  from run_Cons_ok [OF Cons(2)] obtain v where v: "a w = (Inr (), v)" "run before v = (Inr (), w1)"
    by blast
  from Cons(1) [OF v(2) Cons(3)] v(1) show ?case by simp
qed

lemma archive_state_ok:
  assumes "archive_state v = (Inr (), v')"
  shows "\<exists>n. lookup (files v') [''tmp'', ''config-dir''] = Some n
           \<and> read_file (files v') [''tmp'', ''state.tar''] = Inr (TarArchive (tar_add n []))"
proof -
  from assms obtain r1 n r2 where
    r1: "write_file (files v) [''tmp'', ''state.tar''] (Raw []) = Inr r1"
    and n: "lookup r1 [''tmp'', ''config-dir''] = Some n"
    and r2: "write_file r1 [''tmp'', ''state.tar''] (TarArchive (tar_add n [])) = Inr r2"
    and v': "files v' = r2"
    by (auto simp: archive_state_def archive_def Let_def
             split: prod.splits sum.splits option.splits)
  have "lookup r2 [''tmp'', ''config-dir''] = lookup_opt (Some r1) [''tmp'', ''config-dir'']"
    by (rule put_lookup_other [OF r2 [unfolded write_file_def]]) simp
  with n have "lookup r2 [''tmp'', ''config-dir''] = Some n" by simp
  moreover have "read_file r2 [''tmp'', ''state.tar''] = Inr (TarArchive (tar_add n []))"
    using write_file_lookup_same [OF r2] by (simp add: read_file_def)
  ultimately show ?thesis using v' by blast
qed

lemma upload_state_ok:
  assumes "environ v ''AWS_REGION'' = Some region" and "upload_state subdomain v = (Inr (), v')"
  shows "\<exists>b. read_file (files v) [''tmp'', ''state.tar''] = Inr b
    \<and> s3_objects v'
        = (s3_objects v)((region @ ''.liquidity-certbot-runner-infrastructure-'' @ subdomain,
                          ''state.tar'') \<mapsto> b)"
  using assms
  by (auto simp: upload_state_def bucket_name_def s3_upload_file_def s3_request_def Let_def
           split: if_splits option.splits sum.splits)

lemma download_state_region:
  "download_state subdomain v = (Inr (), v') \<Longrightarrow> \<exists>region. environ v ''AWS_REGION'' = Some region"
  by (auto simp: download_state_def bucket_name_def split: option.splits)

text \<open>
  C4: when a statement of the handler raises, the handler ends there with that error
  and with the state as the failing statement left it: no later statement runs and
  nothing done before is undone. In particular, when the first five statements have
  succeeded and packaging the bundle then raises, the handler raises the same error,
  the object \<^verbatim>\<open>state.tar\<close> holds the archive of the configuration directory as it is
  now, the object \<^verbatim>\<open>certbundle.zip\<close> is what it was before the run, and the only
  requests made are the download and the upload of \<^verbatim>\<open>state.tar\<close>.
\<close>

theorem handler_failure_keeps_completed_steps:
  assumes sub: "environ w ''SUBDOMAIN'' = Some subdomain"
  shows "(\<forall>before s rest w1 e w2.
            handler_steps certbot_main subdomain = before @ s # rest
            \<and> run before w = (Inr (), w1) \<and> s w1 = (Inl e, w2)
            \<longrightarrow> handler certbot_main w = (Inl e, w2))
    \<and> (\<forall>w5 e w6.
            run (take 5 (handler_steps certbot_main subdomain)) w = (Inr (), w5)
            \<and> package_certbundle subdomain w5 = (Inl e, w6)
            \<longrightarrow> handler certbot_main w = (Inl e, w6)
              \<and> (\<exists>region n.
                    environ w ''AWS_REGION'' = Some region
                    \<and> lookup (files w5) [''tmp'', ''config-dir''] = Some n
                    \<and> s3_objects w6
                         (region @ ''.liquidity-certbot-runner-infrastructure-'' @ subdomain,
                          ''state.tar'')
                        = Some (TarArchive (tar_add n []))
                    \<and> s3_objects w6
                         (region @ ''.liquidity-certbot-runner-infrastructure-'' @ subdomain,
                          ''certbundle.zip'')
                        = s3_objects w
                            (region @ ''.liquidity-certbot-runner-infrastructure-'' @ subdomain,
                             ''certbundle.zip'')
                    \<and> s3_calls w6 = s3_calls w
                        @ [Download_file
                             (region @ ''.liquidity-certbot-runner-infrastructure-'' @ subdomain)
                             ''state.tar'' ''/tmp/state.tar'',
                           Upload_file ''/tmp/state.tar''
                             (region @ ''.liquidity-certbot-runner-infrastructure-'' @ subdomain)
                             ''state.tar'']))"
proof (intro conjI allI impI)
  fix before s rest w1 e w2
  assume a: "handler_steps certbot_main subdomain = before @ s # rest
            \<and> run before w = (Inr (), w1) \<and> s w1 = (Inl e, w2)"
  then have "run (handler_steps certbot_main subdomain) w = (Inl e, w2)"
    using run_append_fail [of before w w1 s e w2 rest] by simp
  with sub show "handler certbot_main w = (Inl e, w2)" by (simp add: handler_def)
next
  fix w5 e w6
  assume a: "run (take 5 (handler_steps certbot_main subdomain)) w = (Inr (), w5)
            \<and> package_certbundle subdomain w5 = (Inl e, w6)"
  then have r5: "run [download_state subdomain, extract_state,
                     run_certbot certbot_main subdomain, archive_state,
                     upload_state subdomain] w = (Inr (), w5)"
    and p: "package_certbundle subdomain w5 = (Inl e, w6)"
    by (simp_all add: handler_steps_def)
  have split: "handler_steps certbot_main subdomain
     = [download_state subdomain, extract_state, run_certbot certbot_main subdomain,
        archive_state, upload_state subdomain]
       @ package_certbundle subdomain # [upload_certbundle subdomain]"
    by (simp add: handler_steps_def)
  have "run (handler_steps certbot_main subdomain) w = (Inl e, w6)"
    unfolding split
    using run_append_fail [of _ w w5 "package_certbundle subdomain" e w6
            "[upload_certbundle subdomain]"] r5 p
    by blast
  with sub show "handler certbot_main w = (Inl e, w6)" by (simp add: handler_def)
  from run_Cons_ok [OF r5] obtain w1 where
    s1: "download_state subdomain w = (Inr (), w1)"
    and r4: "run [extract_state, run_certbot certbot_main subdomain, archive_state,
                  upload_state subdomain] w1 = (Inr (), w5)" by blast
  from run_Cons_ok [OF r4] obtain w2 where
    s2: "extract_state w1 = (Inr (), w2)"
    and r3: "run [run_certbot certbot_main subdomain, archive_state,
                  upload_state subdomain] w2 = (Inr (), w5)" by blast
  from run_Cons_ok [OF r3] obtain w3 where
    s3: "run_certbot certbot_main subdomain w2 = (Inr (), w3)"
    and r2: "run [archive_state, upload_state subdomain] w3 = (Inr (), w5)" by blast
  from run_Cons_ok [OF r2] obtain w4 where
    s4: "archive_state w3 = (Inr (), w4)"
    and r1: "run [upload_state subdomain] w4 = (Inr (), w5)" by blast
  from run_Cons_ok [OF r1] have s5: "upload_state subdomain w4 = (Inr (), w5)" by auto
  from download_state_region [OF s1] obtain region where
    reg: "environ w ''AWS_REGION'' = Some region" by blast
  let ?b = "region @ ''.liquidity-certbot-runner-infrastructure-'' @ subdomain"
  note f1 = download_state_frame [OF reg s1]
  note f2 = extract_state_frame [OF s2]
  note f3 = run_certbot_frame [OF s3]
  note f4 = archive_state_frame [OF s4]
  have reg4: "environ w4 ''AWS_REGION'' = Some region" using f1 f2 f3 f4 reg by simp
  note f5 = upload_state_frame [OF reg4 s5]
  note f6 = package_certbundle_frame [OF p]
  from archive_state_ok [OF s4] obtain n where
    n: "lookup (files w4) [''tmp'', ''config-dir''] = Some n"
       "read_file (files w4) [''tmp'', ''state.tar''] = Inr (TarArchive (tar_add n []))" by blast
  from upload_state_ok [OF reg4 s5] n(2) have
    o5: "s3_objects w5 = (s3_objects w4)((?b, ''state.tar'') \<mapsto> TarArchive (tar_add n []))"
    by auto
  have o4: "s3_objects w4 = s3_objects w" using f1 f2 f3 f4 by simp
  have "lookup (files w5) [''tmp'', ''config-dir''] = Some n" using n(1) f5 by simp
  moreover have "s3_objects w6 (?b, ''state.tar'') = Some (TarArchive (tar_add n []))"
    using f6 o5 by simp
  moreover have "s3_objects w6 (?b, ''certbundle.zip'') = s3_objects w (?b, ''certbundle.zip'')"
    using f6 o5 o4 by simp
  moreover have "s3_calls w6 = s3_calls w
      @ [Download_file ?b ''state.tar'' ''/tmp/state.tar'',
         Upload_file ''/tmp/state.tar'' ?b ''state.tar'']"
    using f1 f2 f3 f4 f5 f6 by simp
  ultimately show "\<exists>region n.
                    environ w ''AWS_REGION'' = Some region
                    \<and> lookup (files w5) [''tmp'', ''config-dir''] = Some n
                    \<and> s3_objects w6
                         (region @ ''.liquidity-certbot-runner-infrastructure-'' @ subdomain,
                          ''state.tar'')
                        = Some (TarArchive (tar_add n []))
                    \<and> s3_objects w6
                         (region @ ''.liquidity-certbot-runner-infrastructure-'' @ subdomain,
                          ''certbundle.zip'')
                        = s3_objects w
                            (region @ ''.liquidity-certbot-runner-infrastructure-'' @ subdomain,
                             ''certbundle.zip'')
                    \<and> s3_calls w6 = s3_calls w
                        @ [Download_file
                             (region @ ''.liquidity-certbot-runner-infrastructure-'' @ subdomain)
                             ''state.tar'' ''/tmp/state.tar'',
                           Upload_file ''/tmp/state.tar''
                             (region @ ''.liquidity-certbot-runner-infrastructure-'' @ subdomain)
                             ''state.tar'']"
    using reg by blast
qed

theorem handler_failure_keeps_completed_steps_witness:
  "environ warm_world ''SUBDOMAIN'' = Some ''api''
   \<and> fst (run (take 5 (handler_steps stub_certbot ''api'')) warm_world) = Inr ()
   \<and> handler stub_certbot warm_world
     = (Inl FileExistsError,
        snd (package_certbundle ''api''
               (snd (run (take 5 (handler_steps stub_certbot ''api'')) warm_world))))
   \<and> (\<exists>n. lookup (files (snd (run (take 5 (handler_steps stub_certbot ''api'')) warm_world)))
             [''tmp'', ''config-dir''] = Some n
          \<and> s3_objects
              (snd (package_certbundle ''api''
                      (snd (run (take 5 (handler_steps stub_certbot ''api'')) warm_world))))
              (example_bucket, ''state.tar'')
            = Some (TarArchive (tar_add n [])))
   \<and> s3_objects
        (snd (package_certbundle ''api''
                (snd (run (take 5 (handler_steps stub_certbot ''api'')) warm_world))))
        (example_bucket, ''certbundle.zip'')
     = None"
proof -
  let ?w5 = "snd (run (take 5 (handler_steps stub_certbot ''api'')) warm_world)"
  let ?w6 = "snd (package_certbundle ''api'' ?w5)"
  have sub: "environ warm_world ''SUBDOMAIN'' = Some ''api''"
    by (simp add: warm_world_def example_world_def)
  have reg: "environ warm_world ''AWS_REGION'' = Some ''eu-west-1''"
    by (simp add: warm_world_def example_world_def)
  have ok5: "fst (run (take 5 (handler_steps stub_certbot ''api'')) warm_world) = Inr ()"
    by code_simp
  have fail6: "fst (package_certbundle ''api'' ?w5) = Inl FileExistsError"
    by code_simp
  have r5: "run (take 5 (handler_steps stub_certbot ''api'')) warm_world = (Inr (), ?w5)"
    using ok5 by (simp add: prod_eq_iff)
  have p6: "package_certbundle ''api'' ?w5 = (Inl FileExistsError, ?w6)"
    using fail6 by (simp add: prod_eq_iff)
  have none: "s3_objects warm_world (example_bucket, ''certbundle.zip'') = None"
    by (simp add: warm_world_def example_world_def)
  have b: "''eu-west-1'' @ ''.liquidity-certbot-runner-infrastructure-'' @ ''api'' = example_bucket"
    by (simp add: example_bucket_def)
  from handler_failure_keeps_completed_steps [OF sub, of stub_certbot] r5 p6
  have "handler stub_certbot warm_world = (Inl FileExistsError, ?w6)
     \<and> (\<exists>region n.
          environ warm_world ''AWS_REGION'' = Some region
          \<and> lookup (files ?w5) [''tmp'', ''config-dir''] = Some n
          \<and> s3_objects ?w6
               (region @ ''.liquidity-certbot-runner-infrastructure-'' @ ''api'', ''state.tar'')
              = Some (TarArchive (tar_add n []))
          \<and> s3_objects ?w6
               (region @ ''.liquidity-certbot-runner-infrastructure-'' @ ''api'',
                ''certbundle.zip'')
              = s3_objects warm_world
                  (region @ ''.liquidity-certbot-runner-infrastructure-'' @ ''api'',
                   ''certbundle.zip'')
          \<and> s3_calls ?w6 = s3_calls warm_world
              @ [Download_file
                   (region @ ''.liquidity-certbot-runner-infrastructure-'' @ ''api'')
                   ''state.tar'' ''/tmp/state.tar'',
                 Upload_file ''/tmp/state.tar''
                   (region @ ''.liquidity-certbot-runner-infrastructure-'' @ ''api'')
                   ''state.tar''])"
    by blast
  with reg b none sub ok5 show ?thesis by auto
qed

section \<open>A member in a sibling directory\<close>

text \<open>
  C1, evaluated at one archive: the destination is \<^verbatim>\<open>/tmp/config-dir\<close> and the only
  member is named \<^verbatim>\<open>../config-dir-extra/file\<close>. The member resolves to
  \<^verbatim>\<open>/tmp/config-dir-extra/file\<close>, outside the destination, yet \<open>safe_extract\<close> raises
  nothing and the file is written there.
\<close>

theorem safe_extract_sibling_escape:
  "path_components ''/var/task'' (join ''/tmp/config-dir'' ''../config-dir-extra/file'')
     = [''tmp'', ''config-dir-extra'', ''file'']
   \<and> safe_extract ''/var/task'' (Dir [(''tmp'', Dir [(''config-dir'', Dir [])])])
       [TarInfo ''../config-dir-extra/file'' REGTYPE (Raw ''x'')] ''/tmp/config-dir'' None
     = (Inr (),
        Dir [(''tmp'',
              Dir [(''config-dir'', Dir []),
                   (''config-dir-extra'', Dir [(''file'', File (Raw ''x''))])])])"
  by code_simp

section \<open>The archive of a directory tree\<close>

lemma join_slash_eq_Nil: "list_all valid_name acc \<Longrightarrow> join_slash acc = [] \<longleftrightarrow> acc = []"
  by (induction acc rule: join_slash.induct) (auto simp: valid_name_def)

lemma join_slash_snoc:
  "acc \<noteq> [] \<Longrightarrow> join_slash (acc @ [c]) = join_slash acc @ ''/'' @ c"
  by (induction acc rule: join_slash.induct) auto

lemma join_slash_hd:
  "list_all valid_name acc \<Longrightarrow> acc \<noteq> [] \<Longrightarrow> hd (join_slash acc) \<noteq> CHR ''/''"
  by (induction acc rule: join_slash.induct) (auto simp: valid_name_def neq_Nil_conv)

lemma join_slash_last:
  "list_all valid_name acc \<Longrightarrow> acc \<noteq> [] \<Longrightarrow> last (join_slash acc) \<noteq> CHR ''/''"
proof (induction acc rule: join_slash.induct)
  case (3 c d cs)
  then have "join_slash (d # cs) \<noteq> []" using join_slash_eq_Nil [of "d # cs"] by simp
  with 3 show ?case by simp
qed (auto simp: valid_name_def dest: last_in_set)

lemma join_valid:
  assumes "list_all valid_name acc" and "valid_name c"
  shows "join (join_slash acc) c = join_slash (acc @ [c])"
proof (cases "acc = []")
  case True
  then show ?thesis using assms by (simp add: join_def isabs_def valid_name_def split: list.splits)
next
  case False
  have "\<not> isabs c" using assms(2) by (auto simp: isabs_def valid_name_def split: list.splits)
  moreover have "join_slash acc \<noteq> []" using join_slash_eq_Nil [OF assms(1)] False by simp
  moreover have "\<not> endswith_sep (join_slash acc)"
    using join_slash_last [OF assms(1) False] by (simp add: endswith_sep_def)
  ultimately show ?thesis using False by (simp add: join_def join_slash_snoc)
qed

lemma strip_join_slash:
  "list_all valid_name acc \<Longrightarrow> dropWhile (\<lambda>c. c = CHR ''/'') (join_slash acc) = join_slash acc"
proof (cases "acc = []")
  case False
  assume v: "list_all valid_name acc"
  then have "join_slash acc \<noteq> []" using False join_slash_eq_Nil by simp
  with join_slash_hd [OF v False] show ?thesis by (cases "join_slash acc") auto
qed simp

lemma tar_add_complete:
  "wf_node n \<Longrightarrow> list_all valid_name acc \<Longrightarrow> file_at n p = Some b
     \<Longrightarrow> TarInfo (join_slash (acc @ p)) REGTYPE b \<in> set (tar_add n (join_slash acc))"
proof (induction n p arbitrary: acc rule: lookup.induct)
  case (1 n)
  then show ?case by (cases n) (auto simp: file_at_def strip_join_slash)
next
  case (2 x c cs)
  then show ?case by (simp add: file_at_def)
next
  case (3 es c cs)
  from 3(4) obtain child where child: "map_of es c = Some child" and f: "file_at child cs = Some b"
    by (auto simp: file_at_def split: option.splits)
  from child have mem: "(c, child) \<in> set es" by (rule map_of_SomeD)
  with 3(2) have vc: "valid_name c" and wc: "wf_node child" by auto
  have "TarInfo (join_slash ((acc @ [c]) @ cs)) REGTYPE b
          \<in> set (tar_add child (join_slash (acc @ [c])))"
    using "3.IH" [OF child wc _ f, of "acc @ [c]"] 3(3) vc by simp
  then have "TarInfo (join_slash (acc @ c # cs)) REGTYPE b
          \<in> set (tar_add child (join (join_slash acc) c))"
    using join_valid [OF 3(3) vc] by simp
  with mem show ?case by (force simp: set_sort)
qed

lemma tar_add_sound:
  "wf_node n \<Longrightarrow> list_all valid_name acc \<Longrightarrow> m \<in> set (tar_add n (join_slash acc))
     \<Longrightarrow> \<exists>p. list_all valid_name p \<and> name m = join_slash (acc @ p)
           \<and> (type m = REGTYPE \<longrightarrow> file_at n p = Some (payload m))
           \<and> (type m = DIRTYPE \<longrightarrow> is_dir n p \<and> payload m = Raw [])"
proof (induction n "join_slash acc" arbitrary: acc m rule: tar_add.induct)
  case (1 b)
  then show ?case
    by (intro exI [of _ "[]"]) (auto simp: file_at_def strip_join_slash)
next
  case (2 es)
  show ?case
  proof (cases "m = TarInfo (dropWhile (\<lambda>c. c = CHR ''/'') (join_slash acc)) DIRTYPE (Raw [])")
    case True
    then show ?thesis using 2(3)
      by (intro exI [of _ "[]"]) (auto simp: is_dir_def strip_join_slash)
  next
    case False
    with 2(4) obtain f child where mem: "(f, child) \<in> set es"
      and m: "m \<in> set (tar_add child (join (join_slash acc) f))"
      by (auto simp: set_sort)
    from mem 2(2) have vf: "valid_name f" and wc: "wf_node child"
      and d: "distinct (map fst es)" by auto
    from d mem have look: "map_of es f = Some child" by simp
    have j: "join (join_slash acc) f = join_slash (acc @ [f])" by (rule join_valid [OF 2(3) vf])
    have "\<exists>p. list_all valid_name p \<and> name m = join_slash ((acc @ [f]) @ p)
           \<and> (type m = REGTYPE \<longrightarrow> file_at child p = Some (payload m))
           \<and> (type m = DIRTYPE \<longrightarrow> is_dir child p \<and> payload m = Raw [])"
    proof (rule "2.hyps" [of "(f, child)" f child "acc @ [f]" m])
      show "(f, child) \<in> set (sort_key fst es)" using mem by (simp add: set_sort)
      show "(f, child) = (f, child)" ..
      show "join (join_slash acc) f = join_slash (acc @ [f])" by (rule j)
      show "wf_node child" by (rule wc)
      show "list_all valid_name (acc @ [f])" using 2(3) vf by simp
      show "m \<in> set (tar_add child (join_slash (acc @ [f])))" using m j by simp
    qed
    then obtain p where p: "list_all valid_name p" "name m = join_slash ((acc @ [f]) @ p)"
      "type m = REGTYPE \<longrightarrow> file_at child p = Some (payload m)"
      "type m = DIRTYPE \<longrightarrow> is_dir child p \<and> payload m = Raw []" by blast
    show ?thesis
      using p look vf
      by (intro exI [of _ "f # p"]) (auto simp: file_at_def is_dir_def)
  qed
qed

lemma archive_writes:
  assumes src: "lookup root (path_components cwd sourceDir) = Some n"
    and apart: "\<not> prefix (path_components cwd sourceDir) (path_components cwd tarPath)"
    and parent: "is_dir root (butlast (path_components cwd tarPath))"
    and notdir: "\<not> is_dir root (path_components cwd tarPath)"
  shows "\<exists>root'. archive cwd root sourceDir tarPath = (Inr (), root')
    \<and> read_file root' (path_components cwd tarPath) = Inr (TarArchive (tar_add n []))"
proof -
  let ?out = "path_components cwd tarPath"
  let ?src = "path_components cwd sourceDir"
  have ne: "?out \<noteq> []" using parent notdir by auto
  have "is_dir_node (lookup_opt (Some root) (butlast ?out))"
    using parent by (auto simp: is_dir_def split: option.splits node.splits)
  moreover have "\<not> is_dir_node (lookup_opt (Some root) ?out)"
    using notdir by (auto simp: is_dir_def split: option.splits node.splits)
  ultimately obtain r1 where r1: "write_file root ?out (Raw []) = Inr r1"
    unfolding write_file_def using put_success [OF ne] by blast
  have "lookup r1 ?src = lookup_opt (Some root) ?src"
    by (rule put_lookup_other [OF r1 [unfolded write_file_def] apart])
  with src have n1: "lookup r1 ?src = Some n" by simp
  obtain r2 where r2: "write_file r1 ?out (TarArchive (tar_add n [])) = Inr r2"
    using write_file_overwrite_success [OF write_file_lookup_same [OF r1] r1] by blast
  have "archive cwd root sourceDir tarPath = (Inr (), r2)"
    using r1 n1 r2 by (simp add: archive_def)
  moreover have "read_file r2 ?out = Inr (TarArchive (tar_add n []))"
    using write_file_lookup_same [OF r2] by (simp add: read_file_def)
  ultimately show ?thesis by blast
qed

text \<open>
  C7: archiving a source directory into an archive file outside it succeeds (the
  file system being well formed, the directory above the archive file existing and
  the archive path not being a directory) and leaves the members \<open>tar_add n []\<close> of
  the tree \<open>n\<close> found at the source directory. Every file below the source
  directory is a member, named by its path relative to the source directory, with
  its contents. Every member is named by the relative path of a file or directory
  of the tree, the source directory itself by the empty name: the name of the
  source directory, and the path that leads to it, appear in no member name.
\<close>

theorem archive_rooted_at_children:
  assumes wf: "wf_node root"
    and src: "lookup root (path_components cwd sourceDir) = Some n"
    and apart: "\<not> prefix (path_components cwd sourceDir) (path_components cwd tarPath)"
    and parent: "is_dir root (butlast (path_components cwd tarPath))"
    and notdir: "\<not> is_dir root (path_components cwd tarPath)"
  shows "\<exists>root'. archive cwd root sourceDir tarPath = (Inr (), root')
    \<and> read_file root' (path_components cwd tarPath) = Inr (TarArchive (tar_add n []))
    \<and> (\<forall>p b. file_at n p = Some b
          \<longrightarrow> TarInfo (join_slash p) REGTYPE b \<in> set (tar_add n []))
    \<and> (\<forall>m \<in> set (tar_add n []).
          \<exists>p. name m = join_slash p
            \<and> (type m = REGTYPE \<longrightarrow> file_at n p = Some (payload m))
            \<and> (type m = DIRTYPE \<longrightarrow> is_dir n p))"
proof -
  have wn: "wf_node n" by (rule wf_lookup [OF wf src])
  have c: "TarInfo (join_slash p) REGTYPE b \<in> set (tar_add n [])"
    if "file_at n p = Some b" for p b
    using tar_add_complete [OF wn _ that, of "[]"] by simp
  have d: "\<exists>p. name m = join_slash p
            \<and> (type m = REGTYPE \<longrightarrow> file_at n p = Some (payload m))
            \<and> (type m = DIRTYPE \<longrightarrow> is_dir n p)"
    if "m \<in> set (tar_add n [])" for m
    using tar_add_sound [OF wn, of "[]" m] that by auto
  from archive_writes [OF src apart parent notdir] c d show ?thesis by blast
qed

theorem archive_rooted_at_children_witness:
  "wf_node certs_written
   \<and> lookup certs_written (path_components ''/var/task'' ''/tmp/config-dir'')
     = Some (Dir [(''live'',
                   Dir [(''api.liquidityapp.com'',
                         Dir [(''privkey.pem'', File (Raw ''KEY'')),
                              (''fullchain.pem'', File (Raw ''CHAIN''))])])])
   \<and> (\<exists>root'. archive ''/var/task'' certs_written ''/tmp/config-dir'' ''/tmp/state.tar''
                  = (Inr (), root')
        \<and> read_file root' (path_components ''/var/task'' ''/tmp/state.tar'')
          = Inr (TarArchive
                  [TarInfo [] DIRTYPE (Raw []),
                   TarInfo ''live'' DIRTYPE (Raw []),
                   TarInfo ''live/api.liquidityapp.com'' DIRTYPE (Raw []),
                   TarInfo ''live/api.liquidityapp.com/fullchain.pem'' REGTYPE (Raw ''CHAIN''),
                   TarInfo ''live/api.liquidityapp.com/privkey.pem'' REGTYPE (Raw ''KEY'')]))"
proof -
  let ?n = "Dir [(''live'',
                   Dir [(''api.liquidityapp.com'',
                         Dir [(''privkey.pem'', File (Raw ''KEY'')),
                              (''fullchain.pem'', File (Raw ''CHAIN''))])])]"
  have wf: "wf_node certs_written" by code_simp
  have src: "lookup certs_written (path_components ''/var/task'' ''/tmp/config-dir'') = Some ?n"
    by code_simp
  have apart: "\<not> prefix (path_components ''/var/task'' ''/tmp/config-dir'')
                        (path_components ''/var/task'' ''/tmp/state.tar'')"
    by simp
  have parent: "is_dir certs_written (butlast (path_components ''/var/task'' ''/tmp/state.tar''))"
    by code_simp
  have notdir: "\<not> is_dir certs_written (path_components ''/var/task'' ''/tmp/state.tar'')"
    by code_simp
  have tar: "tar_add ?n [] =
                  [TarInfo [] DIRTYPE (Raw []),
                   TarInfo ''live'' DIRTYPE (Raw []),
                   TarInfo ''live/api.liquidityapp.com'' DIRTYPE (Raw []),
                   TarInfo ''live/api.liquidityapp.com/fullchain.pem'' REGTYPE (Raw ''CHAIN''),
                   TarInfo ''live/api.liquidityapp.com/privkey.pem'' REGTYPE (Raw ''KEY'')]"
    by code_simp
  from archive_rooted_at_children [OF wf src apart parent notdir] wf src
  show ?thesis unfolding tar by blast
qed

section \<open>Extraction followed by archiving and extraction\<close>

subsection \<open>What a path holds after creating directories and writing a file\<close>



lemma file_not_dir: "is_file_node x \<Longrightarrow> \<not> is_dir_node x"
  by (cases x rule: is_file_node.cases) auto








subsection \<open>Extracting one member, and all of them\<close>


lemma prefix_butlast: "prefix q p \<Longrightarrow> q \<noteq> p \<Longrightarrow> prefix q (butlast p)"
  by (metis prefix_snoc append_butlast_last_id prefix_Nil)



subsection \<open>The components of an absolute path name\<close>

lemma split_slash_ne [simp]: "split_slash s \<noteq> []"
  by (induction s) (auto split: list.splits)

lemma split_slash_append:
  "split_slash (a @ CHR ''/'' # b) = split_slash a @ split_slash b"
proof (induction a)
  case Nil
  then show ?case by simp
next
  case (Cons c a)
  then show ?case
    by (cases "split_slash a") (auto split: list.splits)
qed

lemma split_slash_no_slash: "CHR ''/'' \<notin> set c \<Longrightarrow> split_slash c = [c]"
  by (induction c) auto

lemma split_slash_parts: "x \<in> set (split_slash s) \<Longrightarrow> CHR ''/'' \<notin> set x"
proof (induction s arbitrary: x)
  case Nil
  then show ?case by simp
next
  case (Cons c s)
  then show ?case
    by (cases "split_slash s") (auto split: if_splits)
qed

lemma split_slash_join_slash:
  "cs \<noteq> [] \<Longrightarrow> list_all valid_name cs \<Longrightarrow> split_slash (join_slash cs) = cs"
proof (induction cs rule: join_slash.induct)
  case (3 c d cs)
  have "split_slash (c @ CHR ''/'' # join_slash (d # cs)) = split_slash c @ split_slash (join_slash (d # cs))"
    by (rule split_slash_append)
  with 3 show ?case by (simp add: split_slash_no_slash valid_name_def)
qed (auto simp: split_slash_no_slash valid_name_def)


lemma norm_step_empty [simp]: "norm_step k acc [] = acc"
  by (simp add: norm_step_def)


lemma norm_step_keeps_valid:
  assumes "0 < k" and "list_all valid_name acc" and "CHR ''/'' \<notin> set c"
  shows "list_all valid_name (norm_step k acc c)"
proof -
  have "last acc \<noteq> ''..''" if "acc \<noteq> []"
    using assms(2) that by (auto simp: list_all_iff valid_name_def dest: last_in_set)
  then show ?thesis
    using assms
    by (auto simp: norm_step_def valid_name_def list_all_iff dest: in_set_butlastD)
qed

lemma foldl_norm_step_keeps_valid:
  "0 < k \<Longrightarrow> list_all valid_name acc \<Longrightarrow> \<forall>c \<in> set xs. CHR ''/'' \<notin> set c
     \<Longrightarrow> list_all valid_name (foldl (norm_step k) acc xs)"
  by (induction xs arbitrary: acc) (auto simp: norm_step_keeps_valid)

lemma filter_split_replicate:
  "filter (\<lambda>c. c \<noteq> []) (split_slash (replicate k CHR ''/'' @ s))
     = filter (\<lambda>c. c \<noteq> []) (split_slash s)"
  by (induction k) auto

lemma filter_split_join:
  "list_all valid_name cs \<Longrightarrow> filter (\<lambda>c. c \<noteq> []) (split_slash (join_slash cs)) = cs"
proof (cases "cs = []")
  case True
  then show ?thesis by simp
next
  case False
  assume v: "list_all valid_name cs"
  then have "filter (\<lambda>c. c \<noteq> []) cs = cs"
    by (auto simp: list_all_iff valid_name_def intro!: filter_True)
  with split_slash_join_slash [OF False v] show ?thesis by simp
qed

lemma initial_slashes_pos: "isabs s \<Longrightarrow> 0 < initial_slashes s"
  by (simp add: initial_slashes_def)

lemma abspath_absolute:
  assumes "isabs s"
  shows "abspath cwd s = replicate (initial_slashes s) CHR ''/''
           @ join_slash (foldl (norm_step (initial_slashes s)) [] (split_slash s))"
proof -
  from assms have "s \<noteq> []" by (auto simp: isabs_def)
  moreover have "replicate (initial_slashes s) CHR ''/'' \<noteq> []"
    using initial_slashes_pos [OF assms] by simp
  ultimately show ?thesis using assms by (simp add: abspath_def normpath_def Let_def)
qed

lemma norm_comps_valid:
  assumes "isabs s"
  shows "list_all valid_name (foldl (norm_step (initial_slashes s)) [] (split_slash s))"
  by (rule foldl_norm_step_keeps_valid [OF initial_slashes_pos [OF assms]])
     (auto dest: split_slash_parts)

lemma path_components_absolute:
  assumes "isabs s"
  shows "path_components cwd s = foldl (norm_step (initial_slashes s)) [] (split_slash s)"
  unfolding path_components_def abspath_absolute [OF assms] filter_split_replicate
  by (rule filter_split_join [OF norm_comps_valid [OF assms]])

lemma path_components_valid: "isabs s \<Longrightarrow> list_all valid_name (path_components cwd s)"
  by (simp add: path_components_absolute norm_comps_valid)










subsection \<open>The extracted tree and its archive\<close>









subsection \<open>Path names in normal form, as the operating system follows them\<close>












lemma walk_skip_empty [simp]: "walk root cur ([] # cs) = walk root cur cs"
  by simp


















subsection \<open>Extraction at names in normal form\<close>






subsection \<open>The round trip\<close>




end
